theory Spec2Isabelle
  imports Main "HOL-Library.Sublist"
begin

section \<open>Configuration values and \<open>deepClean\<close>\<close>

text \<open>
  Source: \<^verbatim>\<open>deepClean\<close> in \<^verbatim>\<open>useStreamingAvatarSession.ts\<close>.
  A JavaScript value of a session configuration is \<^verbatim>\<open>undefined\<close>, \<^verbatim>\<open>null\<close>,
  a boolean, a number, a string, an array, or a plain object. An object is the list of its
  own enumerable entries in the order \<^verbatim>\<open>Object.entries\<close> yields them; its keys are
  ordinary property names (the key \<^verbatim>\<open>__proto__\<close>, whose assignment writes the prototype, is
  outside the model). The function never inspects a number, so the payload of \<open>Num\<close> is
  an integer here.
\<close>

datatype jsval =
    Undefined
  | Null
  | Bool bool
  | Num int
  | Str string
  | Arr "jsval list"
  | Obj "(string \<times> jsval) list"

text \<open>
  \<^verbatim>\<open>acc[key] = v\<close> on the accumulator object: an existing key keeps its place and gets
  the new value, a new key is appended.
\<close>

fun assign :: "(string \<times> jsval) list \<Rightarrow> string \<Rightarrow> jsval \<Rightarrow> (string \<times> jsval) list" where
  "assign [] k v = [(k, v)]"
| "assign ((k', v') # acc) k v =
     (if k' = k then (k', v) # acc else (k', v') # assign acc k v)"

text \<open>
  \<^verbatim>\<open>
  function deepClean<T>(obj: T): T {
    if (obj === null || obj === undefined) return obj;
    if (Array.isArray(obj)) return obj.map(deepClean);
    if (typeof obj === "object")
      return Object.entries(obj).reduce((acc, [key, value]) => {
        if (value !== undefined) acc[key] = deepClean(value);
        return acc;
      }, {});
    return obj;
  }
  \<close>
\<close>

fun deepClean :: "jsval \<Rightarrow> jsval" where
  "deepClean Null = Null"
| "deepClean Undefined = Undefined"
| "deepClean (Arr xs) = Arr (map deepClean xs)"
| "deepClean (Obj kvs) =
     Obj (foldl (\<lambda>acc (key, val). if val \<noteq> Undefined then assign acc key (deepClean val) else acc)
            [] kvs)"
| "deepClean (Bool b) = Bool b"
| "deepClean (Num n) = Num n"
| "deepClean (Str s) = Str s"

text \<open>
  A position inside a value: a sequence of object keys and array indices, followed from
  the root. \<open>get_path\<close> reads the value at a position, if there is one.
\<close>

datatype step = Key string | Idx nat

fun get_path :: "jsval \<Rightarrow> step list \<Rightarrow> jsval option" where
  "get_path v [] = Some v"
| "get_path (Obj kvs) (Key k # p) =
     (case map_of kvs k of None \<Rightarrow> None | Some v \<Rightarrow> get_path v p)"
| "get_path (Arr xs) (Idx i # p) = (if i < length xs then get_path (xs ! i) p else None)"
| "get_path _ _ = None"

text \<open>
  No object at any depth, also inside arrays, binds a key to \<^verbatim>\<open>undefined\<close>. An element
  of an array is not a key: \<^verbatim>\<open>obj.map(deepClean)\<close> keeps an \<^verbatim>\<open>undefined\<close> element in place.
\<close>

fun no_undefined_keys :: "jsval \<Rightarrow> bool" where
  "no_undefined_keys (Arr xs) = list_all no_undefined_keys xs"
| "no_undefined_keys (Obj kvs) = list_all (\<lambda>(k, v). v \<noteq> Undefined \<and> no_undefined_keys v) kvs"
| "no_undefined_keys _ = True"

text \<open>
  The representation invariant of objects: the keys of an object are pairwise distinct,
  at every depth.
\<close>

fun wf_jsval :: "jsval \<Rightarrow> bool" where
  "wf_jsval (Arr xs) = list_all wf_jsval xs"
| "wf_jsval (Obj kvs) = (distinct (map fst kvs) \<and> list_all (\<lambda>(k, v). wf_jsval v) kvs)"
| "wf_jsval _ = True"

text \<open>The callback of \<^verbatim>\<open>reduce\<close>, named for the proofs.\<close>

definition clean_step :: "(string \<times> jsval) list \<Rightarrow> string \<times> jsval \<Rightarrow> (string \<times> jsval) list" where
  "clean_step = (\<lambda>acc (key, val). if val \<noteq> Undefined then assign acc key (deepClean val) else acc)"

text \<open>\<^verbatim>\<open>null\<close> and the falsy but defined values \<^verbatim>\<open>0\<close>, \<^verbatim>\<open>""\<close>, \<^verbatim>\<open>false\<close>.\<close>

definition falsy_defined :: "jsval \<Rightarrow> bool" where
  "falsy_defined v \<longleftrightarrow> v = Null \<or> v = Num 0 \<or> v = Str [] \<or> v = Bool False"

section \<open>Shared types of the session context\<close>

text \<open>
  Source: \<^verbatim>\<open>types.ts\<close> and the context provider (\<^verbatim>\<open>StreamingAvatarContextProps\<close>).
  A thrown JavaScript error is a value with its \<^verbatim>\<open>name\<close> and \<^verbatim>\<open>message\<close>; a function that
  may throw returns \<open>js_error + 'a\<close>.
\<close>

datatype js_error = JsError (err_name: string) (err_message: string)

datatype StreamingAvatarSessionState = INACTIVE | CONNECTING | CONNECTED

datatype MessageSender = CLIENT | AVATAR

text \<open>The field \<^verbatim>\<open>id\<close> of a message is \<open>msg_id\<close> here.\<close>

record Message =
  msg_id :: string
  sender :: MessageSender
  content :: string
  isComplete :: bool

text \<open>\<^verbatim>\<open>Date.now().toString()\<close>: the decimal digits of a natural number.\<close>

definition digit_char :: "nat \<Rightarrow> char" where
  "digit_char d = char_of (48 + d)"

function toString :: "nat \<Rightarrow> string" where
  "toString n = (if n < 10 then [digit_char n] else toString (n div 10) @ [digit_char (n mod 10)])"
  by pat_completeness auto

termination
  by (relation "measure (\<lambda>n. n)") auto

declare toString.simps [simp del]

section \<open>Message history\<close>

text \<open>
  Source: \<^verbatim>\<open>useStreamingAvatarMessageState\<close>. The state is the list \<^verbatim>\<open>messages\<close> and the
  reference \<^verbatim>\<open>currentSenderRef\<close>; the hook's parameter \<^verbatim>\<open>suppressAvatarEvents\<close>, which
  a handler reads as its render received it, and the reading of the clock are arguments.
  State updates are applied at once.
  \<^verbatim>\<open>prev[prev.length - 1].content\<close> on an empty list throws a \<^verbatim>\<open>TypeError\<close>.
\<close>

record message_state =
  messages :: "Message list"
  currentSenderRef :: "MessageSender option"

definition TypeError :: js_error where
  "TypeError = JsError ''TypeError'' ''Cannot read properties of undefined''"

text \<open>
  \<^verbatim>\<open>[...prev.slice(0, -1), {...prev[prev.length - 1], content: [last.content, text].join(""),
  isComplete: false}]\<close>
\<close>

definition extend_last :: "string \<Rightarrow> Message list \<Rightarrow> js_error + Message list" where
  "extend_last txt prev =
     (if prev = [] then Inl TypeError
      else Inr (butlast prev @
                [(last prev)\<lparr>content := content (last prev) @ txt, isComplete := False\<rparr>]))"

definition handleUserTalkingMessage :: "string \<Rightarrow> nat \<Rightarrow> message_state \<Rightarrow> js_error + message_state" where
  "handleUserTalkingMessage detail_message now st =
     (if currentSenderRef st = Some CLIENT then
        (case extend_last detail_message (messages st) of
           Inl e \<Rightarrow> Inl e
         | Inr ms \<Rightarrow> Inr (st\<lparr>messages := ms\<rparr>))
      else
        Inr (st\<lparr>currentSenderRef := Some CLIENT,
                 messages := messages st @
                   [\<lparr>msg_id = toString now, sender = CLIENT, content = detail_message,
                     isComplete = False\<rparr>]\<rparr>))"

definition handleStreamingTalkingMessage ::
    "bool \<Rightarrow> string \<Rightarrow> nat \<Rightarrow> message_state \<Rightarrow> js_error + message_state" where
  "handleStreamingTalkingMessage suppressAvatarEvents detail_message now st =
     (if suppressAvatarEvents then Inr st
      else if currentSenderRef st = Some AVATAR then
        (case extend_last detail_message (messages st) of
           Inl e \<Rightarrow> Inl e
         | Inr ms \<Rightarrow> Inr (st\<lparr>messages := ms\<rparr>))
      else
        Inr (st\<lparr>currentSenderRef := Some AVATAR,
                 messages := messages st @
                   [\<lparr>msg_id = toString now, sender = AVATAR, content = detail_message,
                     isComplete = False\<rparr>]\<rparr>))"

definition handleEndMessage :: "message_state \<Rightarrow> message_state" where
  "handleEndMessage st =
     st\<lparr>messages :=
          (if messages st = [] then messages st
           else butlast (messages st) @ [(last (messages st))\<lparr>isComplete := True\<rparr>]),
        currentSenderRef := None\<rparr>"

definition addTextMessage :: "MessageSender \<Rightarrow> string \<Rightarrow> nat \<Rightarrow> message_state \<Rightarrow> message_state" where
  "addTextMessage sndr txt now st =
     st\<lparr>messages := messages st @
          [\<lparr>msg_id = toString now, sender = sndr, content = txt, isComplete = True\<rparr>]\<rparr>"

definition clearMessages :: "message_state \<Rightarrow> message_state" where
  "clearMessages st = st\<lparr>messages := [], currentSenderRef := None\<rparr>"

definition initial_messages :: message_state where
  "initial_messages = \<lparr>messages = [], currentSenderRef = None\<rparr>"

text \<open>
  A partial-transcript event as the vendor handle delivers it: the text and the clock at
  delivery. The event type \<^verbatim>\<open>USER_TALKING_MESSAGE\<close> runs \<open>handleUserTalkingMessage\<close>,
  \<^verbatim>\<open>AVATAR_TALKING_MESSAGE\<close> runs \<open>handleStreamingTalkingMessage\<close>. The handlers are the
  functions of one render of the provider, the ones a handle has registered; \<open>suppressed\<close>
  is the value \<^verbatim>\<open>suppressAvatarEvents\<close> had in that render.
\<close>

record partial_event =
  ev_text :: string
  ev_time :: nat

definition onPartialTranscript ::
    "MessageSender \<Rightarrow> bool \<Rightarrow> partial_event \<Rightarrow> message_state \<Rightarrow> js_error + message_state" where
  "onPartialTranscript sndr suppressed e st =
     (case sndr of
        CLIENT \<Rightarrow> handleUserTalkingMessage (ev_text e) (ev_time e) st
      | AVATAR \<Rightarrow> handleStreamingTalkingMessage suppressed (ev_text e) (ev_time e) st)"

text \<open>A sequence of such events from one sender, in arrival order; a throw ends it.\<close>

fun onPartialTranscripts ::
    "MessageSender \<Rightarrow> bool \<Rightarrow> partial_event list \<Rightarrow> message_state
     \<Rightarrow> js_error + message_state" where
  "onPartialTranscripts sndr suppressed [] st = Inr st"
| "onPartialTranscripts sndr suppressed (e # es) st =
     (case onPartialTranscript sndr suppressed e st of
        Inl err \<Rightarrow> Inl err
      | Inr st' \<Rightarrow> onPartialTranscripts sndr suppressed es st')"

text \<open>The handlers of the render act on the events of the sender.\<close>

definition delivered :: "MessageSender \<Rightarrow> bool \<Rightarrow> bool" where
  "delivered sndr suppressed \<longleftrightarrow> sndr = CLIENT \<or> \<not> suppressed"

section \<open>Session state machine\<close>

text \<open>
  Source: \<^verbatim>\<open>useStreamingAvatarSession\<close> (\<^verbatim>\<open>init\<close>, \<^verbatim>\<open>handleStream\<close>, \<^verbatim>\<open>stop\<close>, \<^verbatim>\<open>start\<close>),
  \<^verbatim>\<open>useVoiceChat\<close> (\<^verbatim>\<open>stopVoiceChat\<close>) and the context provider.

  The vendor handle (\<^verbatim>\<open>StreamingAvatar\<close> of the vendor SDK) is outside the repository. Of the
  handle the model keeps the token it was built with and its listener table: \<^verbatim>\<open>on\<close> adds the
  pair of event type and handler unless it is registered already, \<^verbatim>\<open>off\<close> removes it. Both
  compare handlers as function objects.

  Which function object a name of the hook stands for depends on the mounted instance of the
  hook and on the render. \<^verbatim>\<open>handleStream\<close>, \<^verbatim>\<open>handleUserStart\<close>, \<^verbatim>\<open>handleUserStop\<close>,
  \<^verbatim>\<open>handleAvatarStartTalking\<close>, \<^verbatim>\<open>handleAvatarStopTalking\<close> and
  \<^verbatim>\<open>handleConnectionQualityChanged\<close> are memoised on state setters, which never change:
  there is one object of each per instance of the hook, and the argument of the constructor
  is the number of the instance (\<^verbatim>\<open>InteractiveAvatar\<close> mounts one instance, every
  \<^verbatim>\<open>AvatarVideo\<close> another). \<^verbatim>\<open>handleUserTalkingMessage\<close>,
  \<^verbatim>\<open>handleStreamingTalkingMessage\<close> and \<^verbatim>\<open>handleEndMessage\<close> are plain functions of the
  provider: every render of the provider creates new ones, and the argument is the number
  of the render. \<^verbatim>\<open>stop\<close> is memoised on these three, so there is one object per instance and
  render. A closure written in place at the call of \<^verbatim>\<open>on\<close> is \<open>Anonymous\<close> with a number of
  its own.
\<close>

datatype StreamingEvents =
    STREAM_READY | STREAM_DISCONNECTED | CONNECTION_QUALITY_CHANGED
  | USER_START | USER_STOP | AVATAR_START_TALKING | AVATAR_STOP_TALKING
  | USER_TALKING_MESSAGE | AVATAR_TALKING_MESSAGE | USER_END_MESSAGE | AVATAR_END_MESSAGE

datatype handler =
    HandleStream nat
  | Stop nat nat
  | HandleConnectionQualityChanged nat
  | HandleUserStart nat
  | HandleUserStop nat
  | HandleAvatarStartTalking nat
  | HandleAvatarStopTalking nat
  | HandleUserTalkingMessage nat
  | HandleStreamingTalkingMessage nat
  | HandleEndMessage nat
  | Anonymous nat

record StreamingAvatar =
  sa_token :: string
  listeners :: "(StreamingEvents \<times> handler) list"

definition avatar_on :: "StreamingEvents \<Rightarrow> handler \<Rightarrow> StreamingAvatar \<Rightarrow> StreamingAvatar" where
  "avatar_on ev h av =
     av\<lparr>listeners := (if (ev, h) \<in> set (listeners av) then listeners av
                       else listeners av @ [(ev, h)])\<rparr>"

definition avatar_off :: "StreamingEvents \<Rightarrow> handler \<Rightarrow> StreamingAvatar \<Rightarrow> StreamingAvatar" where
  "avatar_off ev h av = av\<lparr>listeners := removeAll (ev, h) (listeners av)\<rparr>"

datatype ConnectionQuality = UNKNOWN | GOOD | BAD

datatype dialog = NoCreditsAlert | LowCreditsConfirm | StreamReadyTimeoutAlert

text \<open>
  What the code asks of the world, in the order it asks. \<open>SendChunk\<close> marks the entry into
  \<^verbatim>\<open>sendChunkToAvatar\<close> with its text; \<open>FetchTask\<close> is one request to the speech-task
  endpoint with the session identifier, the session token and the text.
\<close>

datatype effect =
    CreateStartAvatar jsval
  | StopAvatar
  | CloseVoiceChat
  | StartVoiceChat
  | FetchQuotaCheck
  | Alert dialog
  | Confirm dialog
  | FetchAccessToken
  | SetStreamReadyTimeout nat
  | FetchChat string
  | SendChunk string
  | FetchTask string string string
  | Sleep nat
  | Speak string

text \<open>
  What the closures of one render of the provider read of the state: \<^verbatim>\<open>start\<close> reads
  \<^verbatim>\<open>sessionState\<close> in its guard, \<^verbatim>\<open>handleStreamingTalkingMessage\<close> reads
  \<^verbatim>\<open>suppressAvatarEvents\<close>. A closure keeps the values of its render, whatever the state
  has become when it runs.
\<close>

record render =
  r_sessionState :: StreamingAvatarSessionState
  r_suppressAvatarEvents :: bool

text \<open>
  The state of the provider, the references, and the effects so far. The state fields hold
  the latest value set. \<open>currentRender\<close> is the latest render of the provider and
  \<open>pastRenders\<close> are the ones before it, oldest first; closures of all of them may still be
  called. \<open>stopsPending\<close> counts the calls of \<^verbatim>\<open>stop\<close> that are suspended at their
  \<^verbatim>\<open>await\<close>.
\<close>

record "context" =
  avatarRef :: "StreamingAvatar option"
  sessionState :: StreamingAvatarSessionState
  stream :: "nat option"
  sessionId :: "string option"
  sessionToken :: "string option"
  history :: message_state
  isMuted :: bool
  isVoiceChatLoading :: bool
  isVoiceChatActive :: bool
  isListening :: bool
  isUserTalking :: bool
  isAvatarTalking :: bool
  connectionQuality :: ConnectionQuality
  isLLMProcessing :: bool
  currentLLMResponse :: string
  llmError :: "string option"
  suppressAvatarEvents :: bool
  shouldStartVoiceChatRef :: bool
  streamReadyTimeoutRef :: bool
  nextClosure :: nat
  pastRenders :: "render list"
  currentRender :: render
  stopsPending :: nat
  trace :: "effect list"

definition initial_context :: "context" where
  "initial_context =
     \<lparr>avatarRef = None, sessionState = INACTIVE, stream = None, sessionId = None,
      sessionToken = None, history = initial_messages, isMuted = True,
      isVoiceChatLoading = False, isVoiceChatActive = False, isListening = False,
      isUserTalking = False, isAvatarTalking = False, connectionQuality = UNKNOWN,
      isLLMProcessing = False, currentLLMResponse = [], llmError = None,
      suppressAvatarEvents = False, shouldStartVoiceChatRef = False,
      streamReadyTimeoutRef = False, nextClosure = 0, pastRenders = [],
      currentRender = \<lparr>r_sessionState = INACTIVE, r_suppressAvatarEvents = False\<rparr>,
      stopsPending = 0, trace = []\<rparr>"

definition emit :: "effect \<Rightarrow> context \<Rightarrow> context" where
  "emit e ctx = ctx\<lparr>trace := trace ctx @ [e]\<rparr>"

text \<open>All renders so far, numbered from 0, and the number of the latest one.\<close>

definition renders :: "context \<Rightarrow> render list" where
  "renders ctx = pastRenders ctx @ [currentRender ctx]"

definition generation :: "context \<Rightarrow> nat" where
  "generation ctx = length (pastRenders ctx)"

text \<open>The provider renders again: the new closures read the state as it is now.\<close>

definition rerender :: "context \<Rightarrow> context" where
  "rerender ctx =
     ctx\<lparr>pastRenders := pastRenders ctx @ [currentRender ctx],
         currentRender := \<lparr>r_sessionState = sessionState ctx,
                           r_suppressAvatarEvents = suppressAvatarEvents ctx\<rparr>\<rparr>"

text \<open>A value is truthy unless it is \<^verbatim>\<open>undefined\<close>, \<^verbatim>\<open>null\<close> or the empty string.\<close>

definition truthy :: "string option \<Rightarrow> bool" where
  "truthy v \<longleftrightarrow> (case v of None \<Rightarrow> False | Some x \<Rightarrow> x \<noteq> [])"

text \<open>
  \<^verbatim>\<open>init\<close>: a new handle replaces the one in \<^verbatim>\<open>avatarRef\<close>, and the token is stored.
\<close>

definition init :: "string \<Rightarrow> context \<Rightarrow> context" where
  "init token ctx =
     ctx\<lparr>avatarRef := Some \<lparr>sa_token = token, listeners = []\<rparr>,
         sessionToken := Some token\<rparr>"

text \<open>\<^verbatim>\<open>handleStream\<close>; the detail of \<^verbatim>\<open>STREAM_READY\<close> is a media stream, as its type says.\<close>

definition handleStream :: "nat \<Rightarrow> context \<Rightarrow> context" where
  "handleStream detail ctx = ctx\<lparr>stream := Some detail, sessionState := CONNECTED\<rparr>"

text \<open>
  The pairs \<^verbatim>\<open>start\<close> passes to \<^verbatim>\<open>on\<close> and \<^verbatim>\<open>stop\<close> passes to \<^verbatim>\<open>off\<close>, in call order, for
  the closure of hook instance \<open>inst\<close> and render \<open>gen\<close>.
\<close>

definition start_listeners :: "nat \<Rightarrow> nat \<Rightarrow> (StreamingEvents \<times> handler) list" where
  "start_listeners inst gen =
     [(STREAM_READY, HandleStream inst),
      (STREAM_DISCONNECTED, Stop inst gen),
      (CONNECTION_QUALITY_CHANGED, HandleConnectionQualityChanged inst),
      (USER_START, HandleUserStart inst),
      (USER_STOP, HandleUserStop inst),
      (AVATAR_START_TALKING, HandleAvatarStartTalking inst),
      (AVATAR_STOP_TALKING, HandleAvatarStopTalking inst),
      (USER_TALKING_MESSAGE, HandleUserTalkingMessage gen),
      (AVATAR_TALKING_MESSAGE, HandleStreamingTalkingMessage gen),
      (USER_END_MESSAGE, HandleEndMessage gen),
      (AVATAR_END_MESSAGE, HandleEndMessage gen)]"

definition stop_listeners :: "nat \<Rightarrow> nat \<Rightarrow> (StreamingEvents \<times> handler) list" where
  "stop_listeners inst gen =
     [(STREAM_READY, HandleStream inst),
      (STREAM_DISCONNECTED, Stop inst gen),
      (CONNECTION_QUALITY_CHANGED, HandleConnectionQualityChanged inst),
      (USER_START, HandleUserStart inst),
      (USER_STOP, HandleUserStop inst),
      (AVATAR_START_TALKING, HandleAvatarStartTalking inst),
      (AVATAR_STOP_TALKING, HandleAvatarStopTalking inst),
      (USER_TALKING_MESSAGE, HandleUserTalkingMessage gen),
      (AVATAR_TALKING_MESSAGE, HandleStreamingTalkingMessage gen),
      (USER_END_MESSAGE, HandleEndMessage gen),
      (AVATAR_END_MESSAGE, HandleEndMessage gen)]"

definition on_all :: "(StreamingEvents \<times> handler) list \<Rightarrow> StreamingAvatar \<Rightarrow> StreamingAvatar" where
  "on_all ps av = foldl (\<lambda>a (ev, h). avatar_on ev h a) av ps"

definition off_all :: "(StreamingEvents \<times> handler) list \<Rightarrow> StreamingAvatar \<Rightarrow> StreamingAvatar" where
  "off_all ps av = foldl (\<lambda>a (ev, h). avatar_off ev h a) av ps"

text \<open>\<^verbatim>\<open>stopVoiceChat\<close> of \<^verbatim>\<open>useVoiceChat\<close>.\<close>

definition stopVoiceChat :: "context \<Rightarrow> context" where
  "stopVoiceChat ctx =
     (if avatarRef ctx = None then ctx
      else (emit CloseVoiceChat ctx)\<lparr>isVoiceChatActive := False, isMuted := True\<rparr>)"

text \<open>
  \<^verbatim>\<open>stop\<close> of hook instance \<open>inst\<close> and render \<open>gen\<close>, up to its suspension at
  \<^verbatim>\<open>await avatarRef.current?.stopAvatar()\<close>: the listeners of this closure are deregistered
  from the handle, the messages and the state are reset, and \<^verbatim>\<open>stopAvatar\<close> is called when
  there is a handle. The \<^verbatim>\<open>await\<close> suspends also when there is none. The session state is
  not touched before the suspension.
\<close>

definition stop_begin :: "nat \<Rightarrow> nat \<Rightarrow> context \<Rightarrow> context" where
  "stop_begin inst gen ctx =
     (let c1 = (case avatarRef ctx of
                  None \<Rightarrow> ctx
                | Some av \<Rightarrow> ctx\<lparr>avatarRef := Some (off_all (stop_listeners inst gen) av)\<rparr>);
          c2 = c1\<lparr>history := clearMessages (history c1)\<rparr>;
          c3 = stopVoiceChat c2;
          c4 = c3\<lparr>isListening := False, isUserTalking := False, isAvatarTalking := False,
                  stream := None, sessionId := None, sessionToken := None\<rparr>;
          c5 = (if avatarRef c4 = None then c4 else emit StopAvatar c4)
      in c5\<lparr>stopsPending := Suc (stopsPending c5)\<rparr>)"

text \<open>
  \<^verbatim>\<open>stop\<close> after the suspension. When the call of \<^verbatim>\<open>stopAvatar\<close> returns,
  \<^verbatim>\<open>setSessionState(INACTIVE)\<close> runs; when it rejects, the error leaves \<^verbatim>\<open>stop\<close> and the
  state update is not reached. Nothing resumes when no \<^verbatim>\<open>stop\<close> is suspended.
\<close>

definition stop_settled :: "js_error option \<Rightarrow> context \<Rightarrow> js_error option \<times> context" where
  "stop_settled stopAvatar_error ctx =
     (if stopsPending ctx = 0 then (None, ctx)
      else case stopAvatar_error of
             None \<Rightarrow>
               (None, ctx\<lparr>stopsPending := stopsPending ctx - 1, sessionState := INACTIVE\<rparr>)
           | Some e \<Rightarrow> (Some e, ctx\<lparr>stopsPending := stopsPending ctx - 1\<rparr>))"

text \<open>
  \<^verbatim>\<open>start\<close> of hook instance \<open>inst\<close> and render \<open>gen\<close>, up to its suspension at
  \<^verbatim>\<open>await createStartAvatar(cleanedConfig)\<close>. The guard tests \<open>seen\<close>, the \<^verbatim>\<open>sessionState\<close>
  of the render the closure belongs to. Each throw comes before any update, so the result is
  the error or the new context.
\<close>

definition start_begin ::
    "nat \<Rightarrow> nat \<Rightarrow> StreamingAvatarSessionState \<Rightarrow> jsval \<Rightarrow> string option \<Rightarrow> context
     \<Rightarrow> js_error + context" where
  "start_begin inst gen seen config token ctx =
     (if seen \<noteq> INACTIVE then
        Inl (JsError ''Error'' ''There is already an active session'')
      else if avatarRef ctx = None \<and> \<not> truthy token then
        Inl (JsError ''Error'' ''Token is required'')
      else
        let c1 = (if avatarRef ctx = None then init (the token) ctx else ctx) in
        case avatarRef c1 of
          None \<Rightarrow> Inl (JsError ''Error'' ''Avatar is not initialized'')
        | Some av \<Rightarrow>
            Inr (emit (CreateStartAvatar (deepClean config))
                   (c1\<lparr>sessionState := CONNECTING,
                       avatarRef := Some (on_all (start_listeners inst gen) av)\<rparr>)))"

text \<open>
  How the session-creation call ends: it resolves with a response that may carry a
  \<^verbatim>\<open>session_id\<close>, or it rejects with an error that may carry \<^verbatim>\<open>code\<close>, \<^verbatim>\<open>status\<close> and
  \<^verbatim>\<open>responseText\<close>.
\<close>

record create_error =
  ce_error :: js_error
  ce_code :: "nat option"
  ce_status :: "nat option"
  ce_responseText :: "string option"

datatype create_outcome = Resolved "string option" | Rejected create_error

fun str_includes :: "string \<Rightarrow> string \<Rightarrow> bool" where
  "str_includes [] p = (p = [])"
| "str_includes (c # cs) p = (prefix p (c # cs) \<or> str_includes cs p)"

definition quota_error_message :: string where
  "quota_error_message = ''QUOTA_ERROR: Insufficient HeyGen API credits for streaming avatar session.''"

definition bad_request_message :: string where
  "bad_request_message = ''Session creation failed (400 Bad Request).''"

text \<open>
  \<^verbatim>\<open>start\<close> after the suspension: the identifier is stored when the response carries a
  truthy one; a rejection is classified and thrown again, and no state is updated.
  The two messages the source builds are kept by their first line.
\<close>

definition start_settled :: "create_outcome \<Rightarrow> context \<Rightarrow> js_error option \<times> context" where
  "start_settled outcome ctx =
     (case outcome of
        Resolved session_id \<Rightarrow>
          (None, if truthy session_id then ctx\<lparr>sessionId := session_id\<rparr> else ctx)
      | Rejected err \<Rightarrow>
          (if ce_code err = Some 10008
              \<or> str_includes (err_message (ce_error err)) ''quota not enough''
              \<or> (truthy (ce_responseText err)
                  \<and> str_includes (the (ce_responseText err)) ''quota not enough'')
           then (Some (JsError ''Error'' quota_error_message), ctx)
           else if ce_status err = Some 400
           then (Some (JsError ''Error'' bad_request_message), ctx)
           else (Some (ce_error err), ctx)))"

text \<open>\<^verbatim>\<open>start\<close> with nothing else running between its two halves.\<close>

definition start ::
    "nat \<Rightarrow> nat \<Rightarrow> StreamingAvatarSessionState \<Rightarrow> jsval \<Rightarrow> string option \<Rightarrow> create_outcome
     \<Rightarrow> context \<Rightarrow> js_error option \<times> context" where
  "start inst gen seen config token outcome ctx =
     (case start_begin inst gen seen config token ctx of
        Inl e \<Rightarrow> (Some e, ctx)
      | Inr c \<Rightarrow> start_settled outcome c)"

text \<open>
  The handlers the hook registers, as a handle calls them. The detail of an event carries
  what any of them reads: the media stream of \<^verbatim>\<open>STREAM_READY\<close>, the quality, the text of a
  talking message and the clock at its delivery. \<open>Stop\<close> runs \<^verbatim>\<open>stop\<close> up to its suspension.
  \<open>HandleStreamingTalkingMessage gen\<close> applies the \<^verbatim>\<open>suppressAvatarEvents\<close> of render \<open>gen\<close>;
  there is no such function before that render. An error thrown inside a message handler
  leaves the history as it was. The closures \<^verbatim>\<open>startSessionV2\<close> registers write to the
  console; the one for \<^verbatim>\<open>STREAM_READY\<close> also starts the voice chat, which is outside this
  model.
\<close>

record event_detail =
  d_media :: nat
  d_quality :: ConnectionQuality
  d_message :: string
  d_now :: nat

fun call_handler :: "handler \<Rightarrow> event_detail \<Rightarrow> context \<Rightarrow> context" where
  "call_handler (HandleStream inst) d ctx = handleStream (d_media d) ctx"
| "call_handler (Stop inst gen) d ctx = stop_begin inst gen ctx"
| "call_handler (HandleConnectionQualityChanged inst) d ctx = ctx\<lparr>connectionQuality := d_quality d\<rparr>"
| "call_handler (HandleUserStart inst) d ctx = ctx\<lparr>isUserTalking := True\<rparr>"
| "call_handler (HandleUserStop inst) d ctx = ctx\<lparr>isUserTalking := False\<rparr>"
| "call_handler (HandleAvatarStartTalking inst) d ctx = ctx\<lparr>isAvatarTalking := True\<rparr>"
| "call_handler (HandleAvatarStopTalking inst) d ctx = ctx\<lparr>isAvatarTalking := False\<rparr>"
| "call_handler (HandleUserTalkingMessage gen) d ctx =
     ctx\<lparr>history :=
           (case handleUserTalkingMessage (d_message d) (d_now d) (history ctx) of
              Inl e \<Rightarrow> history ctx
            | Inr h \<Rightarrow> h)\<rparr>"
| "call_handler (HandleStreamingTalkingMessage gen) d ctx =
     (if gen < length (renders ctx) then
        ctx\<lparr>history :=
              (case handleStreamingTalkingMessage (r_suppressAvatarEvents (renders ctx ! gen))
                      (d_message d) (d_now d) (history ctx) of
                 Inl e \<Rightarrow> history ctx
               | Inr h \<Rightarrow> h)\<rparr>
      else ctx)"
| "call_handler (HandleEndMessage gen) d ctx = ctx\<lparr>history := handleEndMessage (history ctx)\<rparr>"
| "call_handler (Anonymous n) d ctx = ctx"

definition listeners_of :: "context \<Rightarrow> (StreamingEvents \<times> handler) list" where
  "listeners_of ctx = (case avatarRef ctx of None \<Rightarrow> [] | Some av \<Rightarrow> listeners av)"

text \<open>
  The handle in \<^verbatim>\<open>avatarRef\<close> emits an event: the handlers registered for its type run in
  order.
\<close>

definition fire :: "StreamingEvents \<Rightarrow> event_detail \<Rightarrow> context \<Rightarrow> context" where
  "fire ev d ctx =
     foldl (\<lambda>c h. call_handler h d c) ctx
       (map snd (filter (\<lambda>p. fst p = ev) (listeners_of ctx)))"

text \<open>\<^verbatim>\<open>avatar.on(ev, (e) => ...)\<close> with a closure written in place.\<close>

definition on_anonymous :: "StreamingEvents \<Rightarrow> context \<Rightarrow> context" where
  "on_anonymous ev ctx =
     (case avatarRef ctx of
        None \<Rightarrow> ctx
      | Some av \<Rightarrow>
          ctx\<lparr>avatarRef := Some (avatar_on ev (Anonymous (nextClosure ctx)) av),
              nextClosure := Suc (nextClosure ctx)\<rparr>)"

text \<open>
  The transitions of the session state machine. Each is one stretch of code that runs
  without suspension: \<^verbatim>\<open>init\<close>, a render of the provider, either half of \<^verbatim>\<open>start\<close> and of
  \<^verbatim>\<open>stop\<close> (called through the closure of any hook instance and of any render there has
  been), an event of the handle in \<^verbatim>\<open>avatarRef\<close>, and the registration of a closure. A
  handle that \<^verbatim>\<open>init\<close> has replaced may still call the handlers registered on it; the model
  does not keep replaced handles and lets any handler be called instead (\<open>EvCall\<close>). A run is
  any sequence of transitions from the initial context; this includes every sequence the
  application can produce.
\<close>

datatype session_event =
    EvInit string
  | EvRender
  | EvStartBegin nat nat jsval "string option"
  | EvStartSettled create_outcome
  | EvStopBegin nat nat
  | EvStopSettled "js_error option"
  | EvFire StreamingEvents event_detail
  | EvCall handler event_detail
  | EvOnAnonymous StreamingEvents

fun session_step :: "session_event \<Rightarrow> context \<Rightarrow> context" where
  "session_step (EvInit token) ctx = init token ctx"
| "session_step EvRender ctx = rerender ctx"
| "session_step (EvStartBegin inst gen config token) ctx =
     (if gen < length (renders ctx) then
        (case start_begin inst gen (r_sessionState (renders ctx ! gen)) config token ctx of
           Inl e \<Rightarrow> ctx
         | Inr c \<Rightarrow> c)
      else ctx)"
| "session_step (EvStartSettled outcome) ctx = snd (start_settled outcome ctx)"
| "session_step (EvStopBegin inst gen) ctx = stop_begin inst gen ctx"
| "session_step (EvStopSettled r) ctx = snd (stop_settled r ctx)"
| "session_step (EvFire ev d) ctx = fire ev d ctx"
| "session_step (EvCall h d) ctx = call_handler h d ctx"
| "session_step (EvOnAnonymous ev) ctx = on_anonymous ev ctx"

definition run :: "session_event list \<Rightarrow> context \<Rightarrow> context" where
  "run evs ctx = foldl (\<lambda>c e. session_step e c) ctx evs"

text \<open>No call of \<^verbatim>\<open>stopAvatar\<close> in the run is rejected.\<close>

fun stop_succeeds :: "session_event \<Rightarrow> bool" where
  "stop_succeeds (EvStopSettled r) = (r = None)"
| "stop_succeeds _ = True"

text \<open>
  A transition that keeps \<^verbatim>\<open>start\<close> and \<^verbatim>\<open>stop\<close> apart: \<^verbatim>\<open>start\<close> is called through a closure
  whose render shows the session state as it is, and \<^verbatim>\<open>handleStream\<close> does not run while a
  \<^verbatim>\<open>stop\<close> is suspended. A run is orderly when each of its transitions is, in the context
  it is taken in.
\<close>

fun orderly_event :: "session_event \<Rightarrow> context \<Rightarrow> bool" where
  "orderly_event (EvStartBegin inst gen config token) ctx =
     (gen < length (renders ctx) \<longrightarrow> r_sessionState (renders ctx ! gen) = sessionState ctx)"
| "orderly_event (EvFire ev d) ctx = (ev = STREAM_READY \<longrightarrow> stopsPending ctx = 0)"
| "orderly_event (EvCall (HandleStream inst) d) ctx = (stopsPending ctx = 0)"
| "orderly_event _ ctx = True"

fun orderly :: "session_event list \<Rightarrow> context \<Rightarrow> bool" where
  "orderly [] ctx = True"
| "orderly (e # es) ctx = (orderly_event e ctx \<and> orderly es (session_step e ctx))"

section \<open>Session start with the quota gate\<close>

text \<open>
  Source: \<^verbatim>\<open>startSessionV2\<close> and \<^verbatim>\<open>fetchAccessToken\<close> in \<^verbatim>\<open>InteractiveAvatar.tsx\<close>.
  The environment says how each request ends: the quota check (a thrown error, or a
  response with its status and its JSON body, \<open>None\<close> when \<^verbatim>\<open>json()\<close> throws), the answer to
  the confirmation dialog, the access token request and the session creation.
\<close>

record quotaData =
  credits :: int
  minutes :: int
  activeSessions :: int

datatype quota_outcome = QuotaFetchThrew js_error | QuotaResponse nat "quotaData option"

record session_env =
  quotaCheck :: quota_outcome
  confirmAnswer :: bool
  accessToken :: "js_error + string"
  createStartAvatar_outcome :: create_outcome

text \<open>\<^verbatim>\<open>response.ok\<close>: the status is in the range 200 to 299.\<close>

definition response_ok :: "nat \<Rightarrow> bool" where
  "response_ok status \<longleftrightarrow> 200 \<le> status \<and> status \<le> 299"

text \<open>The \<^verbatim>\<open>catch\<close> block of \<^verbatim>\<open>startSessionV2\<close>.\<close>

definition catch_cleanup :: "context \<Rightarrow> context" where
  "catch_cleanup ctx = ctx\<lparr>shouldStartVoiceChatRef := False, streamReadyTimeoutRef := False\<rparr>"

text \<open>The event types \<^verbatim>\<open>startSessionV2\<close> registers a closure for, in call order.\<close>

definition anonymous_events :: "StreamingEvents list" where
  "anonymous_events =
     [AVATAR_START_TALKING, AVATAR_STOP_TALKING, STREAM_DISCONNECTED, STREAM_READY,
      USER_START, USER_STOP, USER_END_MESSAGE, USER_TALKING_MESSAGE,
      AVATAR_TALKING_MESSAGE, AVATAR_END_MESSAGE]"

text \<open>The hook instance that \<^verbatim>\<open>InteractiveAvatar\<close> mounts.\<close>

definition InteractiveAvatar_hook :: nat where
  "InteractiveAvatar_hook = 0"

text \<open>
  The part of \<^verbatim>\<open>startSessionV2\<close> after the quota gate (``continue with existing session
  start logic''): the token request, \<^verbatim>\<open>initAvatar\<close>, the closures, \<^verbatim>\<open>startAvatar(config)\<close>
  and the fallback timer of a voice chat. \<^verbatim>\<open>startSessionV2\<close> runs the function of the latest
  render (\<^verbatim>\<open>useMemoizedFn\<close>), so \<^verbatim>\<open>startAvatar\<close> is the closure of that render.
\<close>

definition session_start_logic :: "session_env \<Rightarrow> bool \<Rightarrow> jsval \<Rightarrow> context \<Rightarrow> context" where
  "session_start_logic env isVoiceChat config ctx =
     (let c0 = emit FetchAccessToken ctx in
      case accessToken env of
        Inl e \<Rightarrow> catch_cleanup c0
      | Inr newToken \<Rightarrow>
          let c1 = init newToken c0;
              c2 = c1\<lparr>shouldStartVoiceChatRef := isVoiceChat\<rparr>;
              c3 = foldl (\<lambda>c ev. on_anonymous ev c) c2 anonymous_events
          in case start InteractiveAvatar_hook (generation ctx)
                    (r_sessionState (currentRender ctx)) config None
                    (createStartAvatar_outcome env) c3 of
               (Some e, c4) \<Rightarrow> catch_cleanup c4
             | (None, c4) \<Rightarrow>
                 if isVoiceChat
                 then (emit (SetStreamReadyTimeout 10000) c4)\<lparr>streamReadyTimeoutRef := True\<rparr>
                 else c4)"

definition startSessionV2 :: "session_env \<Rightarrow> bool \<Rightarrow> jsval \<Rightarrow> context \<Rightarrow> context" where
  "startSessionV2 env isVoiceChat config ctx =
     (let c0 = emit FetchQuotaCheck ctx in
      case quotaCheck env of
        QuotaFetchThrew e \<Rightarrow> catch_cleanup c0
      | QuotaResponse status body \<Rightarrow>
          if response_ok status then
            (case body of
               None \<Rightarrow> catch_cleanup c0
             | Some quotaData \<Rightarrow>
                 if credits quotaData = 0 then emit (Alert NoCreditsAlert) c0
                 else if credits quotaData < 2 then
                   (let c1 = emit (Confirm LowCreditsConfirm) c0 in
                    if \<not> confirmAnswer env then c1
                    else session_start_logic env isVoiceChat config c1)
                 else session_start_logic env isVoiceChat config c0)
          else session_start_logic env isVoiceChat config c0)"

section \<open>Turn relay: from the LLM stream to speech chunks\<close>

text \<open>
  Source: \<^verbatim>\<open>useLLMChat\<close> (\<^verbatim>\<open>isRetryableError\<close>, \<^verbatim>\<open>sendChunkToAvatar\<close>, \<^verbatim>\<open>sendToLLM\<close>) and
  \<^verbatim>\<open>sendMessage\<close> of \<^verbatim>\<open>useTextChat\<close>. Text is ASCII here: of the white space of JavaScript
  the model knows tab, line feed, vertical tab, form feed, carriage return and space.
\<close>

definition is_space :: "char \<Rightarrow> bool" where
  "is_space c \<longleftrightarrow> c \<in> {CHR 0x09, CHR 0x0A, CHR 0x0B, CHR 0x0C, CHR 0x0D, CHR '' ''}"

definition trim :: "string \<Rightarrow> string" where
  "trim s = rev (dropWhile is_space (rev (dropWhile is_space s)))"

definition is_terminal :: "char \<Rightarrow> bool" where
  "is_terminal c \<longleftrightarrow> c = CHR ''.'' \<or> c = CHR ''!'' \<or> c = CHR ''?''"

text \<open>
  \<^verbatim>\<open>SENTENCE_ENDING_REGEX = /[.!?]+(\s|$)/\<close>. \<open>sentence_match s\<close> is the leftmost match as
  \<^verbatim>\<open>s.match\<close> returns it: its index and the length of the matched text. A match starts at a
  terminal character; \<open>after_terminal\<close> reads the rest of the match behind it: the further
  terminal characters, then one white space or the end of the text.
\<close>

fun after_terminal :: "string \<Rightarrow> nat option" where
  "after_terminal [] = Some 0"
| "after_terminal (c # cs) =
     (if is_terminal c then map_option Suc (after_terminal cs)
      else if is_space c then Some 1
      else None)"

fun sentence_match :: "string \<Rightarrow> (nat \<times> nat) option" where
  "sentence_match [] = None"
| "sentence_match (c # cs) =
     (case (if is_terminal c then after_terminal cs else None) of
        Some n \<Rightarrow> Some (0, Suc n)
      | None \<Rightarrow> map_option (\<lambda>(i, l). (Suc i, l)) (sentence_match cs))"

definition MAX_BUFFER_LENGTH :: nat where "MAX_BUFFER_LENGTH = 500"

definition CHUNK_DELAY_MS :: nat where "CHUNK_DELAY_MS = 800"

definition MAX_RETRY_ATTEMPTS :: nat where "MAX_RETRY_ATTEMPTS = 3"

definition INITIAL_RETRY_DELAY_MS :: nat where "INITIAL_RETRY_DELAY_MS = 1000"

definition MAX_CHUNK_RETRIES :: nat where "MAX_CHUNK_RETRIES = 2"

definition CHUNK_RETRY_DELAY :: nat where "CHUNK_RETRY_DELAY = 500"

text \<open>
  The decision of the relay on its buffer, after a fragment was appended: the text to send
  and the remaining buffer, or \<open>None\<close> when nothing is sent and the buffer stays.
  \<^verbatim>\<open>
  let lastSentenceEnd = -1;
  const match = sentenceBuffer.match(SENTENCE_ENDING_REGEX);
  if (match && match.index !== undefined) lastSentenceEnd = match.index + match[0].length;
  if (lastSentenceEnd > 0 || sentenceBuffer.length > MAX_BUFFER_LENGTH) {
    const textToSend = lastSentenceEnd > 0
      ? sentenceBuffer.substring(0, lastSentenceEnd).trim() : sentenceBuffer.trim();
    const remainingText = lastSentenceEnd > 0 ? sentenceBuffer.substring(lastSentenceEnd) : "";
    if (textToSend.length > 0) { ... send, sentenceBuffer = remainingText, delay ... }
  }
  \<close>
\<close>

definition lastSentenceEnd :: "string \<Rightarrow> int" where
  "lastSentenceEnd sentenceBuffer =
     (case sentence_match sentenceBuffer of
        None \<Rightarrow> - 1
      | Some (index, len) \<Rightarrow> int (index + len))"

definition next_chunk :: "string \<Rightarrow> (string \<times> string) option" where
  "next_chunk sentenceBuffer =
     (let e = lastSentenceEnd sentenceBuffer in
      if e > 0 \<or> length sentenceBuffer > MAX_BUFFER_LENGTH then
        (let textToSend = (if e > 0 then trim (take (nat e) sentenceBuffer)
                           else trim sentenceBuffer);
             remainingText = (if e > 0 then drop (nat e) sentenceBuffer else [])
         in if length textToSend > 0 then Some (textToSend, remainingText) else None)
      else None)"

text \<open>
  How a request to the speech-task endpoint ends: \<^verbatim>\<open>fetch\<close> throws, or a response arrives
  with its status and with a body that \<^verbatim>\<open>response.json()\<close> can decode or not. How a request
  to the chat endpoint ends: \<^verbatim>\<open>fetch\<close> throws (a network failure, or the abort after 30
  seconds), or a response arrives with status, status text and body. A body is read in
  network chunks, each a list of non-blank lines, until the stream ends or a read throws. A
  line is JSON with the fields \<^verbatim>\<open>error\<close>, \<^verbatim>\<open>content\<close>, \<^verbatim>\<open>done\<close>, or it does not parse.
\<close>

datatype task_outcome = TaskThrew | TaskResponse nat bool

datatype ndjson_line = Unparsable | Data "string option" "string option" bool

datatype body_end = StreamEnds | ReadThrows js_error

datatype chat_outcome =
    ChatThrew js_error
  | ChatResponse nat string "(ndjson_line list list \<times> body_end) option"

text \<open>
  The environment of one turn: the outcome of the chat request of each attempt (numbered
  from 1), the outcome of each speech-task request (numbered from 0 in the order of the
  \<open>FetchTask\<close> effects of the trace), and the clock when the user's and the avatar's message
  are added to the history.
\<close>

record llm_env =
  chat_results :: "nat \<Rightarrow> chat_outcome"
  task_results :: "nat \<Rightarrow> task_outcome"
  t_user :: nat
  t_avatar :: nat

fun is_task :: "effect \<Rightarrow> bool" where
  "is_task (FetchTask sid tok txt) = True"
| "is_task _ = False"

definition task_calls :: "context \<Rightarrow> nat" where
  "task_calls ctx = length (filter is_task (trace ctx))"

text \<open>
  The retry loop of \<^verbatim>\<open>sendChunkToAvatar\<close>,
  \<^verbatim>\<open>for (let attempt = 1; attempt <= MAX_CHUNK_RETRIES; attempt++)\<close>. Every throw inside the
  loop body is caught there, and no branch throws again.
\<close>

function chunk_attempts :: "llm_env \<Rightarrow> string \<Rightarrow> nat \<Rightarrow> context \<Rightarrow> context" where
  "chunk_attempts env txt attempt ctx =
     (if attempt \<le> MAX_CHUNK_RETRIES then
        (let c1 = emit (FetchTask (the (sessionId ctx)) (the (sessionToken ctx)) txt) ctx in
         case task_results env (task_calls ctx) of
           TaskResponse status True \<Rightarrow>
             if \<not> response_ok status then
               (if status = 500 \<and> attempt < MAX_CHUNK_RETRIES
                then chunk_attempts env txt (attempt + 1) (emit (Sleep CHUNK_RETRY_DELAY) c1)
                else c1)
             else c1
         | _ \<Rightarrow>
             if attempt < MAX_CHUNK_RETRIES
             then chunk_attempts env txt (attempt + 1) (emit (Sleep CHUNK_RETRY_DELAY) c1)
             else c1)
      else ctx)"
  by pat_completeness auto

termination
  by (relation "measure (\<lambda>(env, txt, attempt, ctx). Suc MAX_CHUNK_RETRIES - attempt)") auto

declare chunk_attempts.simps [simp del]

definition sendChunkToAvatar :: "llm_env \<Rightarrow> string \<Rightarrow> context \<Rightarrow> context" where
  "sendChunkToAvatar env txt ctx =
     (let c0 = emit (SendChunk txt) ctx in
      if \<not> truthy (sessionId c0) \<or> \<not> truthy (sessionToken c0) then c0
      else chunk_attempts env txt 1 c0)"

text \<open>The state of the read loop of one attempt.\<close>

record stream_state =
  accumulatedResponse :: string
  sentenceBuffer :: string
  sctx :: "context"

text \<open>The body of \<^verbatim>\<open>if (data.content)\<close>.\<close>

definition relay_content :: "llm_env \<Rightarrow> string \<Rightarrow> stream_state \<Rightarrow> stream_state" where
  "relay_content env data_content st =
     (let acc = accumulatedResponse st @ data_content;
          c1 = (sctx st)\<lparr>currentLLMResponse := acc\<rparr>;
          buf = sentenceBuffer st @ data_content
      in case next_chunk buf of
           Some (textToSend, remainingText) \<Rightarrow>
             \<lparr>accumulatedResponse = acc, sentenceBuffer = remainingText,
              sctx = emit (Sleep CHUNK_DELAY_MS) (sendChunkToAvatar env textToSend c1)\<rparr>
         | None \<Rightarrow> \<lparr>accumulatedResponse = acc, sentenceBuffer = buf, sctx = c1\<rparr>)"

text \<open>
  \<^verbatim>\<open>for (const line of lines)\<close>. A line that does not parse, and a line with a truthy
  \<^verbatim>\<open>error\<close> (whose \<^verbatim>\<open>throw\<close> is caught by the \<^verbatim>\<open>catch\<close> around the line), is skipped. A line
  with \<^verbatim>\<open>done\<close> ends the loop over the lines of this network chunk after its content was
  relayed.
\<close>

fun process_lines :: "llm_env \<Rightarrow> ndjson_line list \<Rightarrow> stream_state \<Rightarrow> stream_state" where
  "process_lines env [] st = st"
| "process_lines env (Unparsable # ls) st = process_lines env ls st"
| "process_lines env (Data data_error data_content data_done # ls) st =
     (if truthy data_error then process_lines env ls st
      else
        let st' = (if truthy data_content then relay_content env (the data_content) st else st)
        in if data_done then st' else process_lines env ls st')"

text \<open>\<^verbatim>\<open>while (true) { const { done, value } = await reader.read(); ... }\<close> up to the end of the stream.\<close>

fun read_loop :: "llm_env \<Rightarrow> ndjson_line list list \<Rightarrow> stream_state \<Rightarrow> stream_state" where
  "read_loop env [] st = st"
| "read_loop env (lines # reads) st = read_loop env reads (process_lines env lines st)"

text \<open>The branch \<^verbatim>\<open>if (done)\<close>: what is left in the buffer is sent, with no delay after it.\<close>

definition final_batch :: "llm_env \<Rightarrow> stream_state \<Rightarrow> stream_state" where
  "final_batch env st =
     (if length (trim (sentenceBuffer st)) > 0
      then st\<lparr>sentenceBuffer := [],
              sctx := sendChunkToAvatar env (trim (sentenceBuffer st)) (sctx st)\<rparr>
      else st)"

text \<open>
  \<^verbatim>\<open>isRetryableError\<close>. \<^verbatim>\<open>error.message.match(/(\d{3})/)\<close> finds the first three consecutive
  digits of the message; \<^verbatim>\<open>parseInt\<close> reads them as a number.
\<close>

definition is_digit :: "char \<Rightarrow> bool" where
  "is_digit c \<longleftrightarrow> 48 \<le> (of_char c :: nat) \<and> (of_char c :: nat) \<le> 57"

fun match_3_digits :: "string \<Rightarrow> string option" where
  "match_3_digits (a # b # c # r) =
     (if is_digit a \<and> is_digit b \<and> is_digit c then Some [a, b, c]
      else match_3_digits (b # c # r))"
| "match_3_digits r = None"

definition parseInt :: "string \<Rightarrow> nat" where
  "parseInt ds = foldl (\<lambda>n c. 10 * n + (of_char c - 48)) 0 ds"

definition isRetryableError :: "js_error \<Rightarrow> bool" where
  "isRetryableError error =
     (if err_name error = ''AbortError'' then True
      else if str_includes (err_message error) ''Failed to fetch''
              \<or> str_includes (err_message error) ''network'' then True
      else (case match_3_digits (err_message error) of
              Some statusMatch \<Rightarrow>
                (let status = parseInt statusMatch in status \<ge> 500 \<and> status < 600)
            | None \<Rightarrow> False))"

text \<open>
  One pass through the body of the retry loop of \<^verbatim>\<open>sendToLLM\<close>: the chat request, the read
  loop, the check of the accumulated response and its insertion into the history. The
  result is the error the \<^verbatim>\<open>catch\<close> of the loop receives, or the response.
\<close>

definition llm_attempt :: "llm_env \<Rightarrow> string \<Rightarrow> nat \<Rightarrow> context \<Rightarrow> (js_error + string) \<times> context" where
  "llm_attempt env userMessage attempt ctx =
     (let c0 = emit (FetchChat userMessage) ctx in
      case chat_results env attempt of
        ChatThrew e \<Rightarrow> (Inl e, c0)
      | ChatResponse status statusText body \<Rightarrow>
          if \<not> response_ok status then
            (Inl (JsError ''Error''
                    (''LLM API request failed: '' @ toString status @ '' '' @ statusText)), c0)
          else
            (case body of
               None \<Rightarrow> (Inl (JsError ''Error'' ''Response body is not readable''), c0)
             | Some (reads, ending) \<Rightarrow>
                 let st = read_loop env reads
                            \<lparr>accumulatedResponse = [], sentenceBuffer = [], sctx = c0\<rparr>
                 in case ending of
                      ReadThrows e \<Rightarrow> (Inl e, sctx st)
                    | StreamEnds \<Rightarrow>
                        let st' = final_batch env st;
                            acc = accumulatedResponse st'
                        in if trim acc = [] then
                             (Inl (JsError ''Error'' ''LLM returned an empty response''), sctx st')
                           else
                             (Inr acc,
                              (sctx st')\<lparr>history :=
                                 addTextMessage AVATAR acc (t_avatar env) (history (sctx st'))\<rparr>)))"

text \<open>
  \<^verbatim>\<open>while (attempt < MAX_RETRY_ATTEMPTS) { attempt++; try { ... return ... } catch (error) { ... } }\<close>
  with the variables \<^verbatim>\<open>attempt\<close> and \<^verbatim>\<open>lastError\<close>. The result is the response returned
  from inside the loop, or the value of \<^verbatim>\<open>lastError\<close> when the loop is left.
\<close>

function llm_attempts ::
    "llm_env \<Rightarrow> string \<Rightarrow> nat \<Rightarrow> js_error option \<Rightarrow> context \<Rightarrow> (js_error option + string) \<times> context" where
  "llm_attempts env userMessage attempt lastError ctx =
     (if attempt < MAX_RETRY_ATTEMPTS then
        (case llm_attempt env userMessage (attempt + 1) ctx of
           (Inr response, c) \<Rightarrow> (Inr response, c)
         | (Inl error, c) \<Rightarrow>
             if isRetryableError error \<and> attempt + 1 < MAX_RETRY_ATTEMPTS then
               llm_attempts env userMessage (attempt + 1) (Some error)
                 (emit (Sleep (INITIAL_RETRY_DELAY_MS * 2 ^ (attempt + 1 - 1))) c)
             else (Inl (Some error), c))
      else (Inl lastError, ctx))"
  by pat_completeness auto

termination
  by (relation "measure (\<lambda>(env, userMessage, attempt, lastError, ctx). MAX_RETRY_ATTEMPTS - attempt)")
     auto

declare llm_attempts.simps [simp del]

text \<open>\<^verbatim>\<open>sendMessage\<close> of \<^verbatim>\<open>useTextChat\<close>; the call of \<^verbatim>\<open>speak\<close> is the effect \<open>Speak\<close>.\<close>

definition sendMessage :: "string \<Rightarrow> context \<Rightarrow> js_error option \<times> context" where
  "sendMessage message ctx =
     (if avatarRef ctx = None then (None, ctx)
      else if sessionState ctx \<noteq> CONNECTED then
        (Some (JsError ''Error'' ''Avatar session is not connected''), ctx)
      else if message = [] \<or> trim message = [] then (None, ctx)
      else (None, emit (Speak message) ctx))"

datatype LLMChatResponse = Success string | Failure string

definition timeout_error_message :: string where
  "timeout_error_message =
     ''Request timed out after 3 attempts. The LLM backend may be unavailable or overloaded.''"

definition timeout_fallback :: string where
  "timeout_fallback =
     ''I apologize, but my response timed out after multiple attempts. The system may be experiencing high load. Please try again later.''"

definition error_fallback :: string where
  "error_fallback =
     ''I apologize, but I encountered an error processing your request after multiple attempts. Please try again.''"

text \<open>
  \<^verbatim>\<open>sendToLLM\<close>. The \<^verbatim>\<open>finally\<close> block runs on every path. An error thrown by the fallback
  \<^verbatim>\<open>sendMessage\<close> is caught and dropped.
\<close>

definition sendToLLM :: "llm_env \<Rightarrow> string \<Rightarrow> bool \<Rightarrow> context \<Rightarrow> LLMChatResponse \<times> context" where
  "sendToLLM env userMessage skipAddingToHistory ctx =
     (let c1 = ctx\<lparr>isLLMProcessing := True, currentLLMResponse := [], llmError := None,
                  suppressAvatarEvents := True\<rparr>;
          c2 = (if \<not> skipAddingToHistory
                then c1\<lparr>history := addTextMessage CLIENT userMessage (t_user env) (history c1)\<rparr>
                else c1);
          (ret, c4) =
            (case llm_attempts env userMessage 0 None c2 of
               (Inr response, c3) \<Rightarrow> (Success response, c3)
             | (Inl (Some lastError), c3) \<Rightarrow>
                 let errorMessage = (if err_name lastError = ''AbortError''
                                     then timeout_error_message else err_message lastError);
                     c5 = c3\<lparr>llmError := Some errorMessage, currentLLMResponse := []\<rparr>;
                     fallbackMessage = (if err_name lastError = ''AbortError''
                                        then timeout_fallback else error_fallback)
                 in (Failure errorMessage, snd (sendMessage fallbackMessage c5))
             | (Inl None, c3) \<Rightarrow> (Failure ''Unknown error: no attempts made'', c3))
      in (ret, c4\<lparr>isLLMProcessing := False, suppressAvatarEvents := False\<rparr>))"

section \<open>Voice trigger of an LLM turn\<close>

text \<open>
  Source: \<^verbatim>\<open>useVoiceChatLLMIntegration\<close>. The body of the effect runs from its first line to
  the call \<^verbatim>\<open>processMessage()\<close> without a suspension: it reads the values of the render
  (\<^verbatim>\<open>messages\<close>, \<^verbatim>\<open>isVoiceChatActive\<close>, \<^verbatim>\<open>isLLMProcessing\<close>) and the two references, and either
  returns or sets both references and invokes \<^verbatim>\<open>sendToLLM(lastMessage.content, true)\<close>. The
  result is the new references and the user message of the invocation, if there is one.
\<close>

record integration_refs =
  lastProcessedMessageIdRef :: "string option"
  processingRef :: bool

definition voiceChatEffect ::
    "Message list \<Rightarrow> bool \<Rightarrow> bool \<Rightarrow> integration_refs \<Rightarrow> integration_refs \<times> string option" where
  "voiceChatEffect msgs voiceChatActive llmProcessing refs =
     (if \<not> voiceChatActive \<or> llmProcessing \<or> processingRef refs then (refs, None)
      else if length msgs = 0 then (refs, None)
      else
        let lastMessage = last msgs in
        if sender lastMessage = CLIENT
           \<and> Some (msg_id lastMessage) \<noteq> lastProcessedMessageIdRef refs
           \<and> trim (content lastMessage) \<noteq> []
           \<and> isComplete lastMessage = True
        then (refs\<lparr>processingRef := True,
                   lastProcessedMessageIdRef := Some (msg_id lastMessage)\<rparr>,
              Some (content lastMessage))
        else (refs, None))"

text \<open>The \<^verbatim>\<open>finally\<close> of \<^verbatim>\<open>processMessage\<close>, when the turn has settled.\<close>

definition processMessage_finally :: "integration_refs \<Rightarrow> integration_refs" where
  "processMessage_finally refs = refs\<lparr>processingRef := False\<rparr>"

text \<open>
  The hook over time: the effect runs with whatever values its render holds, and a turn
  that was invoked settles later. \<open>inFlight\<close> counts the turns invoked and not yet settled,
  \<open>invocations\<close> lists the user messages \<^verbatim>\<open>sendToLLM\<close> was called with. A turn can settle only
  if one is in flight.
\<close>

record integration_state =
  refs :: integration_refs
  inFlight :: nat
  invocations :: "string list"

datatype integration_event = EffectRuns "Message list" bool bool | TurnSettles

fun integration_step :: "integration_event \<Rightarrow> integration_state \<Rightarrow> integration_state" where
  "integration_step (EffectRuns msgs voiceChatActive llmProcessing) s =
     (case voiceChatEffect msgs voiceChatActive llmProcessing (refs s) of
        (r, None) \<Rightarrow> s\<lparr>refs := r\<rparr>
      | (r, Some userMessage) \<Rightarrow>
          s\<lparr>refs := r, inFlight := inFlight s + 1,
            invocations := invocations s @ [userMessage]\<rparr>)"
| "integration_step TurnSettles s =
     (if inFlight s = 0 then s
      else s\<lparr>refs := processMessage_finally (refs s), inFlight := inFlight s - 1\<rparr>)"

definition integration_run :: "integration_event list \<Rightarrow> integration_state \<Rightarrow> integration_state" where
  "integration_run evs s = foldl (\<lambda>s e. integration_step e s) s evs"

definition initial_integration :: integration_state where
  "initial_integration =
     \<lparr>refs = \<lparr>lastProcessedMessageIdRef = None, processingRef = False\<rparr>,
      inFlight = 0, invocations = []\<rparr>"

section \<open>Invariants and projections for the properties\<close>

subsection \<open>Session state machine\<close>

text \<open>
  A media stream is held only while the session is connected and no \<^verbatim>\<open>stop\<close> is suspended.
\<close>

definition stream_inv :: "context \<Rightarrow> bool" where
  "stream_inv c \<longleftrightarrow>
     (stream c \<noteq> None \<longrightarrow> sessionState c = CONNECTED \<and> stopsPending c = 0)"

text \<open>A connected session holds a media stream unless a \<^verbatim>\<open>stop\<close> is suspended.\<close>

definition connected_inv :: "context \<Rightarrow> bool" where
  "connected_inv c \<longleftrightarrow>
     (sessionState c = CONNECTED \<and> stopsPending c = 0 \<longrightarrow> stream c \<noteq> None)"

text \<open>
  On the handle, \<^verbatim>\<open>handleStream\<close> is registered for \<^verbatim>\<open>STREAM_READY\<close> only and \<^verbatim>\<open>stop\<close> for
  \<^verbatim>\<open>STREAM_DISCONNECTED\<close> only.
\<close>

fun typed_listener :: "StreamingEvents \<times> handler \<Rightarrow> bool" where
  "typed_listener (ev, HandleStream inst) = (ev = STREAM_READY)"
| "typed_listener (ev, Stop inst gen) = (ev = STREAM_DISCONNECTED)"
| "typed_listener (ev, h) = True"

definition typed_inv :: "context \<Rightarrow> bool" where
  "typed_inv c \<longleftrightarrow> list_all typed_listener (listeners_of c)"

text \<open>
  The listeners of \<^verbatim>\<open>start\<close> that are function objects of a render: \<^verbatim>\<open>stop\<close> and the three
  message handlers.
\<close>

definition render_listeners :: "nat \<Rightarrow> nat \<Rightarrow> (StreamingEvents \<times> handler) list" where
  "render_listeners inst gen =
     [(STREAM_DISCONNECTED, Stop inst gen),
      (USER_TALKING_MESSAGE, HandleUserTalkingMessage gen),
      (AVATAR_TALKING_MESSAGE, HandleStreamingTalkingMessage gen),
      (USER_END_MESSAGE, HandleEndMessage gen),
      (AVATAR_END_MESSAGE, HandleEndMessage gen)]"

subsection \<open>Voice trigger\<close>

text \<open>
  At most one turn started by the voice trigger is in flight, and the processing flag is
  set exactly while one is.
\<close>

definition flight_inv :: "integration_state \<Rightarrow> bool" where
  "flight_inv s \<longleftrightarrow> inFlight s \<le> 1 \<and> (processingRef (refs s) \<longleftrightarrow> inFlight s = 1)"

subsection \<open>Turn relay\<close>

text \<open>
  The relay of a sequence of content fragments as a function of the buffer alone: the
  chunks sent while the fragments arrive, the buffer left after them, the chunk sent when
  the stream ends, and all of them in order.
\<close>

fun chunks_sent :: "string \<Rightarrow> string list \<Rightarrow> string list" where
  "chunks_sent buf [] = []"
| "chunks_sent buf (c # cs) =
     (case next_chunk (buf @ c) of
        Some (t, r) \<Rightarrow> t # chunks_sent r cs
      | None \<Rightarrow> chunks_sent (buf @ c) cs)"

fun buffer_after :: "string \<Rightarrow> string list \<Rightarrow> string" where
  "buffer_after buf [] = buf"
| "buffer_after buf (c # cs) =
     (case next_chunk (buf @ c) of
        Some (t, r) \<Rightarrow> buffer_after r cs
      | None \<Rightarrow> buffer_after (buf @ c) cs)"

definition final_chunk :: "string \<Rightarrow> string list" where
  "final_chunk buf = (if length (trim buf) > 0 then [trim buf] else [])"

definition chunks_from :: "string \<Rightarrow> string list \<Rightarrow> string list" where
  "chunks_from buf cs = chunks_sent buf cs @ final_chunk (buffer_after buf cs)"

text \<open>
  The content fragments the read loop relays, in order: those of the lines that parse and
  carry no error, up to and including the first line of each network chunk that is marked
  done.
\<close>

fun line_contents :: "ndjson_line list \<Rightarrow> string list" where
  "line_contents [] = []"
| "line_contents (Unparsable # ls) = line_contents ls"
| "line_contents (Data data_error data_content data_done # ls) =
     (if truthy data_error then line_contents ls
      else (if truthy data_content then [the data_content] else [])
           @ (if data_done then [] else line_contents ls))"

definition consumed_contents :: "ndjson_line list list \<Rightarrow> string list" where
  "consumed_contents reads = concat (map line_contents reads)"

text \<open>A text without a sentence terminator (\<^verbatim>\<open>.\<close>, \<^verbatim>\<open>!\<close> or \<^verbatim>\<open>?\<close>).\<close>

definition no_terminal :: "string \<Rightarrow> bool" where
  "no_terminal s \<longleftrightarrow> (\<forall>c \<in> set s. \<not> is_terminal c)"

text \<open>
  The texts \<^verbatim>\<open>sendChunkToAvatar\<close> was called with, read off the trace; whether both session
  identifiers are present; and the requests of one dispatch as the amended claim C3
  describes them: none without session identifiers, otherwise one request, and a second
  one after the fixed delay exactly when the first request threw, or its body could not
  be decoded, or its status was 500.
\<close>

fun chunk_text :: "effect \<Rightarrow> string list" where
  "chunk_text (SendChunk t) = [t]"
| "chunk_text _ = []"

definition dispatched :: "context \<Rightarrow> string list" where
  "dispatched ctx = concat (map chunk_text (trace ctx))"


definition ids_ok :: "context \<Rightarrow> bool" where
  "ids_ok ctx \<longleftrightarrow> truthy (sessionId ctx) \<and> truthy (sessionToken ctx)"

fun retried :: "task_outcome \<Rightarrow> bool" where
  "retried TaskThrew = True"
| "retried (TaskResponse status False) = True"
| "retried (TaskResponse status True) = (status = 500)"

definition chunk_requests :: "llm_env \<Rightarrow> string \<Rightarrow> context \<Rightarrow> effect list" where
  "chunk_requests env txt ctx =
     (if \<not> ids_ok ctx then []
      else FetchTask (the (sessionId ctx)) (the (sessionToken ctx)) txt
           # (if retried (task_results env (task_calls ctx))
              then [Sleep CHUNK_RETRY_DELAY,
                    FetchTask (the (sessionId ctx)) (the (sessionToken ctx)) txt]
              else []))"

text \<open>
  What the read loop does to the context: it appends chunk dispatches, speech-task requests
  and delays to the trace and updates the response shown so far. \<open>relates env cs st st'\<close> says
  that \<open>st'\<close> is \<open>st\<close> after the fragments \<open>cs\<close> were relayed.
\<close>

fun relay_effect :: "effect \<Rightarrow> bool" where
  "relay_effect (SendChunk t) = True"
| "relay_effect (FetchTask sid tok t) = True"
| "relay_effect (Sleep ms) = True"
| "relay_effect _ = False"

text \<open>
  The speech-task requests of a list of effects: none without session identifiers, and one
  per chunk, in the order of the chunks, when no answer of the endpoint leads to a retry.
\<close>

definition requests_ok :: "llm_env \<Rightarrow> context \<Rightarrow> effect list \<Rightarrow> string list \<Rightarrow> bool" where
  "requests_ok env c es chunks \<longleftrightarrow>
     (\<not> ids_ok c \<longrightarrow> filter is_task es = []) \<and>
     (ids_ok c \<and> (\<forall>k. \<not> retried (task_results env k)) \<longrightarrow>
        filter is_task es =
          map (FetchTask (the (sessionId c)) (the (sessionToken c))) chunks)"

definition relay_trace ::
    "llm_env \<Rightarrow> string \<Rightarrow> string list \<Rightarrow> context \<Rightarrow> effect list \<Rightarrow> bool" where
  "relay_trace env buf cs c es \<longleftrightarrow>
     list_all relay_effect es \<and>
     concat (map chunk_text es) = chunks_sent buf cs \<and>
     requests_ok env c es (chunks_sent buf cs)"

definition relates :: "llm_env \<Rightarrow> string list \<Rightarrow> stream_state \<Rightarrow> stream_state \<Rightarrow> bool" where
  "relates env cs st st' \<longleftrightarrow>
     accumulatedResponse st' = accumulatedResponse st @ concat cs \<and>
     sentenceBuffer st' = buffer_after (sentenceBuffer st) cs \<and>
     (\<exists>es cur. sctx st' = (sctx st)\<lparr>trace := trace (sctx st) @ es, currentLLMResponse := cur\<rparr>
               \<and> relay_trace env (sentenceBuffer st) cs (sctx st) es)"

text \<open>
  The status texts of the responses with a status from 400 to 499 (the reason phrases of
  the registry of HTTP status codes, and the older names of five of them).
\<close>

definition client_error_reason_phrases :: "string list" where
  "client_error_reason_phrases =
     [''Bad Request'', ''Unauthorized'', ''Payment Required'', ''Forbidden'', ''Not Found'',
      ''Method Not Allowed'', ''Not Acceptable'', ''Proxy Authentication Required'',
      ''Request Timeout'', ''Conflict'', ''Gone'', ''Length Required'',
      ''Precondition Failed'', ''Content Too Large'', ''Payload Too Large'',
      ''Request Entity Too Large'', ''URI Too Long'', ''Request-URI Too Long'',
      ''Unsupported Media Type'', ''Range Not Satisfiable'',
      ''Requested Range Not Satisfiable'', ''Expectation Failed'', ''Misdirected Request'',
      ''Unprocessable Content'', ''Unprocessable Entity'', ''Locked'', ''Failed Dependency'',
      ''Too Early'', ''Upgrade Required'', ''Precondition Required'', ''Too Many Requests'',
      ''Request Header Fields Too Large'', ''Unavailable For Legal Reasons'']"



section \<open>Properties of \<open>deepClean\<close>\<close>

lemma deepClean_Obj: "deepClean (Obj kvs) = Obj (foldl clean_step [] kvs)"
  by (simp add: clean_step_def)

lemma deepClean_Undefined_iff: "deepClean v = Undefined \<longleftrightarrow> v = Undefined"
  by (cases v) simp_all

lemma assign_fresh: "k \<notin> fst ` set acc \<Longrightarrow> assign acc k v = acc @ [(k, v)]"
  by (induction acc) auto

lemma map_of_assign: "map_of (assign acc k v) = (map_of acc)(k \<mapsto> v)"
  by (induction acc) (auto simp: fun_eq_iff)

lemma keys_assign:
  "map fst (assign acc k v) = (if k \<in> set (map fst acc) then map fst acc else map fst acc @ [k])"
proof (induction acc)
  case Nil
  then show ?case by simp
next
  case (Cons a acc)
  obtain k' v' where a: "a = (k', v')" by (cases a)
  show ?case using Cons.IH by (simp add: a)
qed

lemma distinct_assign: "distinct (map fst acc) \<Longrightarrow> distinct (map fst (assign acc k v))"
  by (simp add: keys_assign)

lemma mem_assign:
  "(k', v') \<in> set (assign acc k v) \<Longrightarrow> (k' = k \<and> v' = v) \<or> (k', v') \<in> set acc"
  by (induction acc) (auto split: if_splits)

lemma distinct_fold: "distinct (map fst acc) \<Longrightarrow> distinct (map fst (foldl clean_step acc kvs))"
proof (induction kvs arbitrary: acc)
  case Nil
  then show ?case by simp
next
  case (Cons kv kvs)
  obtain k v where kv: "kv = (k, v)" by (cases kv)
  from Cons.prems have "distinct (map fst (clean_step acc kv))"
    by (simp add: kv clean_step_def distinct_assign)
  then show ?case using Cons.IH by simp
qed

lemma mem_fold:
  "(k, v) \<in> set (foldl clean_step acc kvs) \<Longrightarrow>
   (k, v) \<in> set acc \<or> (\<exists>v0. (k, v0) \<in> set kvs \<and> v0 \<noteq> Undefined \<and> v = deepClean v0)"
proof (induction kvs arbitrary: acc)
  case Nil
  then show ?case by simp
next
  case (Cons kv kvs)
  obtain k1 v1 where kv: "kv = (k1, v1)" by (cases kv)
  from Cons.prems have "(k, v) \<in> set (foldl clean_step (clean_step acc kv) kvs)" by simp
  from Cons.IH [OF this] consider
      (old) "(k, v) \<in> set (clean_step acc kv)"
    | (new) "\<exists>v0. (k, v0) \<in> set kvs \<and> v0 \<noteq> Undefined \<and> v = deepClean v0"
    by blast
  then show ?case
  proof cases
    case old
    show ?thesis
    proof (cases "v1 = Undefined")
      case True
      with old kv show ?thesis by (simp add: clean_step_def)
    next
      case False
      with old kv have "(k, v) \<in> set (assign acc k1 (deepClean v1))" by (simp add: clean_step_def)
      from mem_assign [OF this] False kv show ?thesis by auto
    qed
  next
    case new
    then show ?thesis by auto
  qed
qed

lemma fold_fixed:
  "distinct (map fst (acc @ r)) \<Longrightarrow> \<forall>v \<in> snd ` set r. v \<noteq> Undefined \<and> deepClean v = v
    \<Longrightarrow> foldl clean_step acc r = acc @ r"
proof (induction r arbitrary: acc)
  case Nil
  then show ?case by simp
next
  case (Cons kv r)
  obtain k v where kv: "kv = (k, v)" by (cases kv)
  from Cons.prems kv have fresh: "k \<notin> fst ` set acc" by auto
  from Cons.prems kv have v: "v \<noteq> Undefined" "deepClean v = v" by auto
  have step: "clean_step acc kv = acc @ [(k, v)]"
    using fresh v kv by (simp add: clean_step_def assign_fresh)
  have "foldl clean_step (acc @ [(k, v)]) r = (acc @ [(k, v)]) @ r"
    using Cons.prems kv by (intro Cons.IH) auto
  with step kv show ?case by simp
qed

lemma deepClean_array_element:
  "deepClean (Arr [Undefined, Obj [(''a'', Undefined)]]) = Arr [Undefined, Obj []]"
  by code_simp

lemma deepClean_idem: "deepClean (deepClean x) = deepClean x"
proof (induction x rule: deepClean.induct)
  case (4 kvs)
  let ?r = "foldl clean_step [] kvs"
  have d: "distinct (map fst ([] @ ?r))" using distinct_fold [of "[]" kvs] by simp
  have "\<forall>v \<in> snd ` set ?r. v \<noteq> Undefined \<and> deepClean v = v"
  proof
    fix v assume "v \<in> snd ` set ?r"
    then obtain k where "(k, v) \<in> set ?r" by auto
    from mem_fold [OF this] obtain v0 where v0: "(k, v0) \<in> set kvs" "v0 \<noteq> Undefined" "v = deepClean v0"
      by auto
    with 4 have "deepClean (deepClean v0) = deepClean v0" by blast
    with v0 show "v \<noteq> Undefined \<and> deepClean v = v" by (simp add: deepClean_Undefined_iff)
  qed
  with d have "foldl clean_step [] ?r = [] @ ?r" by (rule fold_fixed)
  then show ?case by (simp add: deepClean_Obj del: deepClean.simps)
qed simp_all

lemma deepClean_no_undefined: "no_undefined_keys (deepClean x)"
proof (induction x rule: deepClean.induct)
  case (3 xs)
  then show ?case by (simp add: list_all_iff)
next
  case (4 kvs)
  let ?r = "foldl clean_step [] kvs"
  have "\<forall>kv \<in> set ?r. snd kv \<noteq> Undefined \<and> no_undefined_keys (snd kv)"
  proof
    fix kv assume "kv \<in> set ?r"
    then have "(fst kv, snd kv) \<in> set ?r" by simp
    from mem_fold [OF this] obtain v0 where v0: "(fst kv, v0) \<in> set kvs" "v0 \<noteq> Undefined" "snd kv = deepClean v0"
      by auto
    with 4 have "no_undefined_keys (deepClean v0)" by blast
    with v0 show "snd kv \<noteq> Undefined \<and> no_undefined_keys (snd kv)" by (simp add: deepClean_Undefined_iff)
  qed
  then show ?case by (simp add: deepClean_Obj list_all_iff case_prod_unfold del: deepClean.simps)
qed simp_all

lemma map_of_fold:
  "distinct (map fst kvs) \<Longrightarrow>
   map_of (foldl clean_step acc kvs) k =
     (case map_of kvs k of
        Some v \<Rightarrow> if v \<noteq> Undefined then Some (deepClean v) else map_of acc k
      | None \<Rightarrow> map_of acc k)"
proof (induction kvs arbitrary: acc)
  case Nil
  then show ?case by simp
next
  case (Cons kv kvs)
  obtain k' v' where kv: "kv = (k', v')" by (cases kv)
  from Cons.prems kv have nk: "map_of kvs k' = None" by (simp add: map_of_eq_None_iff)
  from Cons.prems have "distinct (map fst kvs)" by simp
  note IH = Cons.IH [OF this]
  have unfold: "map_of (foldl clean_step acc (kv # kvs)) k =
     (case map_of kvs k of
        Some v \<Rightarrow> if v \<noteq> Undefined then Some (deepClean v) else map_of (clean_step acc kv) k
      | None \<Rightarrow> map_of (clean_step acc kv) k)"
    by (simp add: IH)
  have acc': "map_of (clean_step acc kv) k =
     (if k = k' \<and> v' \<noteq> Undefined then Some (deepClean v') else map_of acc k)"
    by (simp add: kv clean_step_def map_of_assign)
  show ?case
  proof (cases "k = k'")
    case True
    with nk unfold acc' kv show ?thesis by simp
  next
    case False
    with unfold acc' kv show ?thesis by (simp split: option.splits)
  qed
qed

lemma deepClean_paths:
  "wf_jsval x \<Longrightarrow> get_path x p = Some v \<Longrightarrow> falsy_defined v \<Longrightarrow> get_path (deepClean x) p = Some v"
proof (induction x p rule: get_path.induct)
  case (1 v')
  then show ?case by (auto simp: falsy_defined_def)
next
  case (2 kvs k p)
  from "2.prems" obtain v1 where v1: "map_of kvs k = Some v1" "get_path v1 p = Some v"
    by (auto split: option.splits)
  have "v1 \<noteq> Undefined"
  proof
    assume "v1 = Undefined"
    with v1 "2.prems" show False by (cases p) (auto simp: falsy_defined_def)
  qed
  from v1 have "(k, v1) \<in> set kvs" by (simp add: map_of_SomeD)
  with "2.prems" have "wf_jsval v1" by (auto simp: list_all_iff)
  with 2 v1 have "get_path (deepClean v1) p = Some v" by simp
  moreover have "map_of (foldl clean_step [] kvs) k = Some (deepClean v1)"
    using "2.prems" v1 \<open>v1 \<noteq> Undefined\<close> by (simp add: map_of_fold)
  ultimately show ?case by (simp add: deepClean_Obj del: deepClean.simps)
next
  case (3 xs i p)
  then show ?case by (auto simp: list_all_length split: if_splits)
qed simp_all

text \<open>
  Claim C6. For every input value, \<open>deepClean\<close> is idempotent; its result binds no key to
  \<^verbatim>\<open>undefined\<close> at any depth, through nested objects and arrays; and wherever the input
  (an object with pairwise distinct keys at every depth) holds \<^verbatim>\<open>null\<close> or a falsy but
  defined value (\<^verbatim>\<open>0\<close>, \<^verbatim>\<open>""\<close>, \<^verbatim>\<open>false\<close>), the result holds the same value at the
  same position.
\<close>

theorem deepClean_idempotent_clean_preserving:
  "deepClean (deepClean x) = deepClean x \<and>
   no_undefined_keys (deepClean x) \<and>
   (wf_jsval x \<and> get_path x p = Some v \<and> falsy_defined v \<longrightarrow>
      get_path (deepClean x) p = Some v)"
  using deepClean_idem deepClean_no_undefined deepClean_paths by blast

theorem deepClean_idempotent_clean_preserving_witness:
  "wf_jsval (Obj [(''a'', Undefined), (''b'', Null),
                  (''c'', Obj [(''d'', Num 0), (''e'', Undefined)]),
                  (''f'', Arr [Str [], Bool False])]) \<and>
   get_path (Obj [(''a'', Undefined), (''b'', Null),
                  (''c'', Obj [(''d'', Num 0), (''e'', Undefined)]),
                  (''f'', Arr [Str [], Bool False])]) [Key ''c'', Key ''d''] = Some (Num 0) \<and>
   falsy_defined (Num 0) \<and>
   deepClean (Obj [(''a'', Undefined), (''b'', Null),
                  (''c'', Obj [(''d'', Num 0), (''e'', Undefined)]),
                  (''f'', Arr [Str [], Bool False])])
     = Obj [(''b'', Null), (''c'', Obj [(''d'', Num 0)]), (''f'', Arr [Str [], Bool False])] \<and>
   get_path (deepClean (Obj [(''a'', Undefined), (''b'', Null),
                  (''c'', Obj [(''d'', Num 0), (''e'', Undefined)]),
                  (''f'', Arr [Str [], Bool False])])) [Key ''c'', Key ''d''] = Some (Num 0)"
  using deepClean_idempotent_clean_preserving
    [of "Obj [(''a'', Undefined), (''b'', Null),
              (''c'', Obj [(''d'', Num 0), (''e'', Undefined)]),
              (''f'', Arr [Str [], Bool False])]" "[Key ''c'', Key ''d'']" "Num 0"]
  by (simp add: falsy_defined_def)


section \<open>Properties of the message history\<close>

lemma onPartialTranscript_open:
  assumes "delivered sndr suppressed" "currentSenderRef st = Some sndr" "messages st = ms @ [m]"
  shows "onPartialTranscript sndr suppressed e st =
           Inr (st\<lparr>messages := ms @ [m\<lparr>content := content m @ ev_text e, isComplete := False\<rparr>]\<rparr>)"
  using assms
  by (cases sndr)
     (simp_all add: onPartialTranscript_def handleUserTalkingMessage_def
        handleStreamingTalkingMessage_def extend_last_def delivered_def)

lemma onPartialTranscripts_open:
  assumes "delivered sndr suppressed" "currentSenderRef st = Some sndr" "messages st = ms @ [m]"
  shows "onPartialTranscripts sndr suppressed es st =
           Inr (st\<lparr>messages :=
                  ms @ [m\<lparr>content := content m @ concat (map ev_text es),
                          isComplete := (if es = [] then isComplete m else False)\<rparr>]\<rparr>)"
  using assms
proof (induction es arbitrary: st m)
  case Nil
  then show ?case by simp
next
  case (Cons e es)
  let ?m = "m\<lparr>content := content m @ ev_text e, isComplete := False\<rparr>"
  let ?st = "st\<lparr>messages := ms @ [?m]\<rparr>"
  have one: "onPartialTranscript sndr suppressed e st = Inr ?st"
    using Cons.prems by (rule onPartialTranscript_open)
  have "onPartialTranscripts sndr suppressed es ?st =
          Inr (?st\<lparr>messages :=
                 ms @ [?m\<lparr>content := content ?m @ concat (map ev_text es),
                          isComplete := (if es = [] then isComplete ?m else False)\<rparr>]\<rparr>)"
    using Cons.prems(1,2) by (intro Cons.IH) simp_all
  with one show ?case by simp
qed

lemma onPartialTranscript_fresh:
  assumes "delivered sndr suppressed" "currentSenderRef st \<noteq> Some sndr"
  shows "onPartialTranscript sndr suppressed e st =
           Inr (st\<lparr>currentSenderRef := Some sndr,
                    messages := messages st @
                      [\<lparr>msg_id = toString (ev_time e), sender = sndr, content = ev_text e,
                        isComplete = False\<rparr>]\<rparr>)"
  using assms
  by (cases sndr)
     (simp_all add: onPartialTranscript_def handleUserTalkingMessage_def
        handleStreamingTalkingMessage_def delivered_def)

lemma onPartialTranscripts_new_turn:
  assumes "delivered sndr suppressed" and "currentSenderRef st \<noteq> Some sndr" and "es \<noteq> []"
  shows "onPartialTranscripts sndr suppressed es st =
           Inr (st\<lparr>currentSenderRef := Some sndr,
                    messages := messages st @
                      [\<lparr>msg_id = toString (ev_time (hd es)), sender = sndr,
                        content = concat (map ev_text es), isComplete = False\<rparr>]\<rparr>)"
proof -
  from assms(3) obtain e es' where es: "es = e # es'" by (cases es) auto
  let ?m = "\<lparr>msg_id = toString (ev_time e), sender = sndr, content = ev_text e,
             isComplete = False\<rparr>"
  let ?st = "st\<lparr>currentSenderRef := Some sndr, messages := messages st @ [?m]\<rparr>"
  have one: "onPartialTranscript sndr suppressed e st = Inr ?st"
    using assms(1,2) by (rule onPartialTranscript_fresh)
  have "onPartialTranscripts sndr suppressed es' ?st =
          Inr (?st\<lparr>messages :=
                 messages st @ [?m\<lparr>content := content ?m @ concat (map ev_text es'),
                          isComplete := (if es' = [] then isComplete ?m else False)\<rparr>]\<rparr>)"
    using assms(1) by (intro onPartialTranscripts_open) simp_all
  with one es show ?thesis by simp
qed

lemma onPartialTranscripts_dropped:
  assumes "\<not> delivered sndr suppressed"
  shows "onPartialTranscripts sndr suppressed es st = Inr st"
proof -
  from assms have a: "sndr = AVATAR" and b: "suppressed"
    by (cases sndr; simp add: delivered_def)+
  have "onPartialTranscripts AVATAR True es st = Inr st"
    by (induction es)
       (simp_all add: onPartialTranscript_def handleStreamingTalkingMessage_def)
  with a b show ?thesis by simp
qed

text \<open>
  Claim C8, as amended. Take a non-empty sequence of partial-transcript events from a
  single sender that starts a new turn (no message of that sender is open), with no
  end-of-turn in between, handled by the handlers of one render. When the sender is the
  client, or \<^verbatim>\<open>suppressAvatarEvents\<close> was unset in that render: after every event of the
  sequence the history has gained exactly one message, it is the last one, its content is
  the ordered concatenation of the texts so far and its \<open>isComplete\<close> flag is false. When
  the sender is the avatar and \<^verbatim>\<open>suppressAvatarEvents\<close> was set in that render, every event
  is dropped: the history does not change.
\<close>

theorem partial_transcripts_concatenate:
  assumes "currentSenderRef st \<noteq> Some sndr" and "0 < n" and "n \<le> length es"
  shows "(delivered sndr suppressed \<longrightarrow>
            onPartialTranscripts sndr suppressed (take n es) st =
              Inr (st\<lparr>currentSenderRef := Some sndr,
                       messages := messages st @
                         [\<lparr>msg_id = toString (ev_time (hd es)), sender = sndr,
                           content = concat (map ev_text (take n es)),
                           isComplete = False\<rparr>]\<rparr>)) \<and>
         (\<not> delivered sndr suppressed \<longrightarrow>
            onPartialTranscripts sndr suppressed (take n es) st = Inr st)"
proof -
  from assms(2,3) have ne: "take n es \<noteq> []" by auto
  from assms(2) have h: "hd (take n es) = hd es" by (cases es; cases n) simp_all
  show ?thesis
    using onPartialTranscripts_new_turn [OF _ assms(1) ne, of suppressed]
      onPartialTranscripts_dropped [of sndr suppressed "take n es" st] h
    by simp
qed

theorem partial_transcripts_concatenate_witness:
  "currentSenderRef initial_messages \<noteq> Some AVATAR \<and>
   delivered AVATAR False \<and>
   onPartialTranscripts AVATAR False
     (take 2 [\<lparr>ev_text = ''Hel'', ev_time = 7\<rparr>, \<lparr>ev_text = ''lo'', ev_time = 8\<rparr>])
     initial_messages =
     Inr \<lparr>messages = [\<lparr>msg_id = toString 7, sender = AVATAR, content = ''Hello'',
                        isComplete = False\<rparr>],
          currentSenderRef = Some AVATAR\<rparr>"
  using partial_transcripts_concatenate
    [of initial_messages AVATAR 2
        "[\<lparr>ev_text = ''Hel'', ev_time = 7\<rparr>, \<lparr>ev_text = ''lo'', ev_time = 8\<rparr>]" False]
  by (simp add: delivered_def initial_messages_def)

text \<open>
  The claim as written fails for the avatar handler of a render in which
  \<^verbatim>\<open>suppressAvatarEvents\<close> was set: the handler returns at its guard and no message is
  opened.
\<close>

theorem partial_transcripts_suppressed_counterexample:
  "onPartialTranscripts AVATAR True [\<lparr>ev_text = ''Hi'', ev_time = 1\<rparr>] initial_messages =
     Inr initial_messages \<and>
   messages initial_messages = []"
  by (simp add: onPartialTranscript_def handleStreamingTalkingMessage_def initial_messages_def)

text \<open>
  The flag a registered handler applies is the one of the render that called \<^verbatim>\<open>start\<close>. A
  session is started while the flag is unset; then a turn sets the flag and the provider
  renders again; the handle delivers an avatar transcript: it is recorded. And a handler
  registered while the flag was set drops the transcript after the flag was cleared.
\<close>

lemma avatar_event_during_turn_is_recorded:
  "messages (history
     (fire AVATAR_TALKING_MESSAGE \<lparr>d_media = 0, d_quality = GOOD, d_message = ''Hi'', d_now = 7\<rparr>
        (rerender
           ((run [EvInit ''tok'', EvStartBegin 0 0 (Obj []) None] initial_context)
              \<lparr>suppressAvatarEvents := True\<rparr>)))) =
     [\<lparr>msg_id = ''7'', sender = AVATAR, content = ''Hi'', isComplete = False\<rparr>]"
  by code_simp

lemma avatar_event_after_turn_is_dropped:
  "messages (history
     (fire AVATAR_TALKING_MESSAGE \<lparr>d_media = 0, d_quality = GOOD, d_message = ''Hi'', d_now = 7\<rparr>
        (rerender
           ((run [EvRender, EvInit ''tok'', EvStartBegin 0 1 (Obj []) None]
               (initial_context\<lparr>suppressAvatarEvents := True\<rparr>))
              \<lparr>suppressAvatarEvents := False\<rparr>)))) = []"
  by code_simp


section \<open>Properties of the session state machine\<close>

subsection \<open>Listener tables\<close>

lemma set_on_all: "set (listeners (on_all ps av)) = set (listeners av) \<union> set ps"
  unfolding on_all_def
proof (induction ps arbitrary: av)
  case Nil
  then show ?case by simp
next
  case (Cons p ps)
  obtain ev h where p: "p = (ev, h)" by (cases p)
  have "set (listeners (avatar_on ev h av)) = insert (ev, h) (set (listeners av))"
    by (auto simp: avatar_on_def)
  with Cons.IH [of "avatar_on ev h av"] p show ?case by auto
qed

lemma set_off_all: "set (listeners (off_all ps av)) = set (listeners av) - set ps"
  unfolding off_all_def
proof (induction ps arbitrary: av)
  case Nil
  then show ?case by simp
next
  case (Cons p ps)
  obtain ev h where p: "p = (ev, h)" by (cases p)
  have "set (listeners (avatar_off ev h av)) = set (listeners av) - {(ev, h)}"
    by (auto simp: avatar_off_def)
  with Cons.IH [of "avatar_off ev h av"] p show ?case by auto
qed

lemma listeners_of_stop_begin:
  "set (listeners_of (stop_begin inst gen c)) = set (listeners_of c) - set (stop_listeners inst gen)"
  by (auto simp: stop_begin_def Let_def stopVoiceChat_def emit_def listeners_of_def set_off_all
           split: option.splits)

lemma listeners_of_rerender: "listeners_of (rerender c) = listeners_of c"
  by (simp add: rerender_def listeners_of_def)

lemma listeners_of_start_begin:
  assumes "start_begin inst gen seen config token c = Inr c'"
  shows "set (listeners_of c') =
           (if avatarRef c = None then {} else set (listeners_of c)) \<union> set (start_listeners inst gen)"
  using assms
  by (auto simp: start_begin_def init_def emit_def Let_def listeners_of_def set_on_all
           split: option.splits if_splits)

lemma typed_start_listeners: "list_all typed_listener (start_listeners inst gen)"
  by (simp add: start_listeners_def)

subsection \<open>The media stream and the session state\<close>

lemma stop_begin_stream: "stream (stop_begin inst gen c) = None"
  by (simp add: stop_begin_def Let_def stopVoiceChat_def emit_def split: option.splits)

lemma stop_begin_sessionId: "sessionId (stop_begin inst gen c) = None"
  by (simp add: stop_begin_def Let_def stopVoiceChat_def emit_def split: option.splits)

lemma stop_begin_sessionToken: "sessionToken (stop_begin inst gen c) = None"
  by (simp add: stop_begin_def Let_def stopVoiceChat_def emit_def split: option.splits)

lemma stop_begin_sessionState: "sessionState (stop_begin inst gen c) = sessionState c"
  by (simp add: stop_begin_def Let_def stopVoiceChat_def emit_def split: option.splits)

lemma stop_begin_pending: "stopsPending (stop_begin inst gen c) = Suc (stopsPending c)"
  by (simp add: stop_begin_def Let_def stopVoiceChat_def emit_def split: option.splits)

lemma stop_settled_state:
  "0 < stopsPending c \<Longrightarrow> sessionState (snd (stop_settled None c)) = INACTIVE"
  by (simp add: stop_settled_def)

text \<open>A connected session holds a stream, over all runs in which no stop call is rejected.\<close>

lemma call_handler_connected_inv: "connected_inv c \<Longrightarrow> connected_inv (call_handler h d c)"
  by (cases h)
     (simp_all add: connected_inv_def handleStream_def stop_begin_pending)

lemma foldl_handlers_connected_inv:
  "connected_inv c \<Longrightarrow> connected_inv (foldl (\<lambda>c h. call_handler h d c) c hs)"
  by (induction hs arbitrary: c) (simp_all add: call_handler_connected_inv)

lemma session_step_connected_inv:
  assumes "connected_inv c" and "stop_succeeds e"
  shows "connected_inv (session_step e c)"
proof (cases e)
  case (EvInit tok)
  with assms show ?thesis by (simp add: connected_inv_def init_def)
next
  case EvRender
  with assms show ?thesis by (simp add: connected_inv_def rerender_def)
next
  case (EvStartBegin inst gen cfg tok)
  with assms show ?thesis
    by (auto simp: connected_inv_def start_begin_def init_def emit_def Let_def
             split: sum.splits option.splits if_splits)
next
  case (EvStartSettled outcome)
  with assms show ?thesis
    by (auto simp: connected_inv_def start_settled_def split: create_outcome.splits)
next
  case (EvStopBegin inst gen)
  then show ?thesis by (simp add: connected_inv_def stop_begin_pending)
next
  case (EvStopSettled r)
  with assms show ?thesis by (simp add: connected_inv_def stop_settled_def)
next
  case (EvFire ev d)
  with assms show ?thesis by (simp add: fire_def foldl_handlers_connected_inv)
next
  case (EvCall h d)
  with assms show ?thesis by (simp add: call_handler_connected_inv)
next
  case (EvOnAnonymous ev)
  with assms show ?thesis
    by (simp add: connected_inv_def on_anonymous_def split: option.splits)
qed

lemma run_connected_inv:
  "connected_inv c \<Longrightarrow> list_all stop_succeeds evs \<Longrightarrow> connected_inv (run evs c)"
  unfolding run_def by (induction evs arbitrary: c) (simp_all add: session_step_connected_inv)

lemma initial_connected_inv: "connected_inv initial_context"
  by (simp add: connected_inv_def initial_context_def)

text \<open>The event types of the registered handlers.\<close>

lemma call_handler_typed_inv: "typed_inv c \<Longrightarrow> typed_inv (call_handler h d c)"
proof (cases h)
  case (Stop inst gen)
  assume "typed_inv c"
  then have "\<forall>p \<in> set (listeners_of c). typed_listener p"
    by (simp add: typed_inv_def list_all_iff)
  then have "\<forall>p \<in> set (listeners_of (stop_begin inst gen c)). typed_listener p"
    by (simp add: listeners_of_stop_begin)
  with Stop show ?thesis by (simp add: typed_inv_def list_all_iff)
qed (simp_all add: typed_inv_def listeners_of_def handleStream_def)

lemma foldl_handlers_typed_inv:
  "typed_inv c \<Longrightarrow> typed_inv (foldl (\<lambda>c h. call_handler h d c) c hs)"
  by (induction hs arbitrary: c) (simp_all add: call_handler_typed_inv)

lemma session_step_typed_inv:
  assumes "typed_inv c"
  shows "typed_inv (session_step e c)"
proof (cases e)
  case (EvInit tok)
  then show ?thesis by (simp add: typed_inv_def init_def listeners_of_def)
next
  case EvRender
  with assms show ?thesis by (simp add: typed_inv_def listeners_of_rerender)
next
  case (EvStartBegin inst gen cfg tok)
  show ?thesis
  proof (cases "gen < length (renders c)")
    case False
    with assms EvStartBegin show ?thesis by simp
  next
    case True
    show ?thesis
    proof (cases "start_begin inst gen (r_sessionState (renders c ! gen)) cfg tok c")
      case (Inl err)
      with assms EvStartBegin True show ?thesis by simp
    next
      case (Inr c')
      from listeners_of_start_begin [OF Inr]
      have "set (listeners_of c') \<subseteq> set (listeners_of c) \<union> set (start_listeners inst gen)"
        by (auto split: if_splits)
      with assms typed_start_listeners [of inst gen] have "typed_inv c'"
        by (auto simp: typed_inv_def list_all_iff)
      with Inr EvStartBegin True show ?thesis by simp
    qed
  qed
next
  case (EvStartSettled outcome)
  have "listeners_of (snd (start_settled outcome c)) = listeners_of c"
    by (simp add: start_settled_def listeners_of_def split: create_outcome.splits)
  with assms EvStartSettled show ?thesis by (simp add: typed_inv_def)
next
  case (EvStopBegin inst gen)
  with assms show ?thesis
    using call_handler_typed_inv [of c "Stop inst gen"] by simp
next
  case (EvStopSettled r)
  have "listeners_of (snd (stop_settled r c)) = listeners_of c"
    by (simp add: stop_settled_def listeners_of_def split: option.splits)
  with assms EvStopSettled show ?thesis by (simp add: typed_inv_def)
next
  case (EvFire ev d)
  with assms show ?thesis by (simp add: fire_def foldl_handlers_typed_inv)
next
  case (EvCall h d)
  with assms show ?thesis by (simp add: call_handler_typed_inv)
next
  case (EvOnAnonymous ev)
  have "set (listeners_of (on_anonymous ev c))
          \<subseteq> insert (ev, Anonymous (nextClosure c)) (set (listeners_of c))"
    by (auto simp: on_anonymous_def listeners_of_def avatar_on_def split: option.splits)
  with assms EvOnAnonymous show ?thesis by (auto simp: typed_inv_def list_all_iff)
qed

lemma initial_typed_inv: "typed_inv initial_context"
  by (simp add: typed_inv_def initial_context_def listeners_of_def)

text \<open>A stream is held only by a connected session, over orderly runs.\<close>

lemma call_handler_stream_inv_other:
  assumes "stream_inv c" and "\<And>inst. h \<noteq> HandleStream inst"
  shows "stream_inv (call_handler h d c)"
  using assms by (cases h) (auto simp: stream_inv_def stop_begin_stream)

lemma call_handler_stream_inv_ready:
  assumes "stream_inv c" and "stopsPending c = 0" and "\<And>inst gen. h \<noteq> Stop inst gen"
  shows "stream_inv (call_handler h d c) \<and> stopsPending (call_handler h d c) = 0"
  using assms by (cases h) (auto simp: stream_inv_def handleStream_def)

lemma foldl_handlers_stream_inv_other:
  assumes "stream_inv c" and "\<forall>h \<in> set hs. \<forall>inst. h \<noteq> HandleStream inst"
  shows "stream_inv (foldl (\<lambda>c h. call_handler h d c) c hs)"
  using assms
  by (induction hs arbitrary: c) (simp_all add: call_handler_stream_inv_other)

lemma foldl_handlers_stream_inv_ready:
  assumes "stream_inv c" and "stopsPending c = 0" and "\<forall>h \<in> set hs. \<forall>inst gen. h \<noteq> Stop inst gen"
  shows "stream_inv (foldl (\<lambda>c h. call_handler h d c) c hs)
         \<and> stopsPending (foldl (\<lambda>c h. call_handler h d c) c hs) = 0"
  using assms
proof (induction hs arbitrary: c)
  case Nil
  then show ?case by simp
next
  case (Cons h hs)
  from Cons.prems have "stream_inv (call_handler h d c) \<and> stopsPending (call_handler h d c) = 0"
    by (intro call_handler_stream_inv_ready) simp_all
  with Cons.IH [of "call_handler h d c"] Cons.prems(3) show ?case by simp
qed

lemma fire_stream_inv:
  assumes "stream_inv c" and "typed_inv c" and "ev = STREAM_READY \<longrightarrow> stopsPending c = 0"
  shows "stream_inv (fire ev d c)"
proof (cases "ev = STREAM_READY")
  case True
  have "\<forall>h \<in> set (map snd (filter (\<lambda>p. fst p = ev) (listeners_of c))).
          \<forall>inst gen. h \<noteq> Stop inst gen"
    using assms(2) True by (auto simp: typed_inv_def list_all_iff)
  with assms(1,3) True show ?thesis
    unfolding fire_def by (intro conjunct1 [OF foldl_handlers_stream_inv_ready]) simp_all
next
  case False
  have "\<forall>h \<in> set (map snd (filter (\<lambda>p. fst p = ev) (listeners_of c))).
          \<forall>inst. h \<noteq> HandleStream inst"
    using assms(2) False by (auto simp: typed_inv_def list_all_iff)
  with assms(1) show ?thesis
    unfolding fire_def by (intro foldl_handlers_stream_inv_other) simp_all
qed

lemma session_step_stream_inv:
  assumes "stream_inv c" and "typed_inv c" and "orderly_event e c"
  shows "stream_inv (session_step e c)"
proof (cases e)
  case (EvInit tok)
  with assms show ?thesis by (simp add: stream_inv_def init_def)
next
  case EvRender
  with assms show ?thesis by (simp add: stream_inv_def rerender_def)
next
  case (EvStartBegin inst gen cfg tok)
  with assms show ?thesis
    by (auto simp: stream_inv_def start_begin_def init_def emit_def Let_def
             split: sum.splits option.splits if_splits)
next
  case (EvStartSettled outcome)
  with assms show ?thesis
    by (auto simp: stream_inv_def start_settled_def split: create_outcome.splits)
next
  case (EvStopBegin inst gen)
  then show ?thesis by (simp add: stream_inv_def stop_begin_stream)
next
  case (EvStopSettled r)
  with assms show ?thesis
    by (auto simp: stream_inv_def stop_settled_def split: option.splits)
next
  case (EvFire ev d)
  with assms show ?thesis by (simp add: fire_stream_inv)
next
  case (EvCall h d)
  show ?thesis
  proof (cases "\<exists>inst. h = HandleStream inst")
    case True
    with assms EvCall show ?thesis by (auto simp: stream_inv_def handleStream_def)
  next
    case False
    then have "\<And>inst. h \<noteq> HandleStream inst" by blast
    with assms(1) have "stream_inv (call_handler h d c)"
      by (rule call_handler_stream_inv_other)
    with EvCall show ?thesis by simp
  qed
next
  case (EvOnAnonymous ev)
  with assms show ?thesis
    by (simp add: stream_inv_def on_anonymous_def split: option.splits)
qed

lemma run_stream_inv:
  "stream_inv c \<Longrightarrow> typed_inv c \<Longrightarrow> orderly evs c \<Longrightarrow> stream_inv (run evs c)"
  unfolding run_def
  by (induction evs arbitrary: c) (simp_all add: session_step_stream_inv session_step_typed_inv)

lemma initial_stream_inv: "stream_inv initial_context"
  by (simp add: stream_inv_def initial_context_def)

text \<open>
  Claim C1, as amended. In the state after any run in which no \<^verbatim>\<open>stopAvatar\<close> call was
  rejected: when the session state is \<open>CONNECTED\<close> and no \<^verbatim>\<open>stop\<close> is suspended, the media
  stream is non-null. In the state after any orderly run (every \<^verbatim>\<open>start\<close> is called through
  a closure whose render shows the session state as it is, and \<^verbatim>\<open>handleStream\<close> does not run
  while a \<^verbatim>\<open>stop\<close> is suspended): when the media stream is non-null, the session state is
  \<open>CONNECTED\<close> and no \<^verbatim>\<open>stop\<close> is suspended. In every state, \<^verbatim>\<open>stop\<close> leaves the media stream,
  the session identifier and the session token null and the session state as it was when
  it suspends, and sets the state to \<open>INACTIVE\<close> when its \<^verbatim>\<open>stopAvatar\<close> call returns. Nothing
  ties the session token and the session identifier to \<open>CONNECTED\<close>: \<^verbatim>\<open>init\<close> stores the
  token while the state is \<open>INACTIVE\<close>, and the identifier is stored when session creation
  returns.
\<close>

theorem session_identifiers_invariant:
  "(list_all stop_succeeds evs \<longrightarrow>
      sessionState (run evs initial_context) = CONNECTED \<and>
      stopsPending (run evs initial_context) = 0 \<longrightarrow>
      stream (run evs initial_context) \<noteq> None) \<and>
   (orderly evs initial_context \<longrightarrow>
      stream (run evs initial_context) \<noteq> None \<longrightarrow>
      sessionState (run evs initial_context) = CONNECTED \<and>
      stopsPending (run evs initial_context) = 0) \<and>
   stream (stop_begin inst gen c) = None \<and>
   sessionId (stop_begin inst gen c) = None \<and>
   sessionToken (stop_begin inst gen c) = None \<and>
   sessionState (stop_begin inst gen c) = sessionState c \<and>
   sessionState (snd (stop_settled None (stop_begin inst gen c))) = INACTIVE"
proof -
  have a: "list_all stop_succeeds evs \<Longrightarrow> connected_inv (run evs initial_context)"
    using initial_connected_inv by (rule run_connected_inv)
  have b: "orderly evs initial_context \<Longrightarrow> stream_inv (run evs initial_context)"
    using initial_stream_inv initial_typed_inv by (rule run_stream_inv)
  have s: "sessionState (snd (stop_settled None (stop_begin inst gen c))) = INACTIVE"
    by (rule stop_settled_state) (simp add: stop_begin_pending)
  show ?thesis
    using a b s
    by (auto simp: stream_inv_def connected_inv_def stop_begin_stream stop_begin_sessionId
          stop_begin_sessionToken stop_begin_sessionState)
qed

theorem session_identifiers_invariant_witness:
  "list_all stop_succeeds
     [EvInit ''tok'', EvStartBegin 0 0 (Obj []) None, EvRender,
      EvStartSettled (Resolved (Some ''sid'')),
      EvFire STREAM_READY \<lparr>d_media = 5, d_quality = GOOD, d_message = [], d_now = 0\<rparr>] \<and>
   orderly
     [EvInit ''tok'', EvStartBegin 0 0 (Obj []) None, EvRender,
      EvStartSettled (Resolved (Some ''sid'')),
      EvFire STREAM_READY \<lparr>d_media = 5, d_quality = GOOD, d_message = [], d_now = 0\<rparr>]
     initial_context \<and>
   stream (run
     [EvInit ''tok'', EvStartBegin 0 0 (Obj []) None, EvRender,
      EvStartSettled (Resolved (Some ''sid'')),
      EvFire STREAM_READY \<lparr>d_media = 5, d_quality = GOOD, d_message = [], d_now = 0\<rparr>]
     initial_context) = Some 5 \<and>
   sessionState (run
     [EvInit ''tok'', EvStartBegin 0 0 (Obj []) None, EvRender,
      EvStartSettled (Resolved (Some ''sid'')),
      EvFire STREAM_READY \<lparr>d_media = 5, d_quality = GOOD, d_message = [], d_now = 0\<rparr>]
     initial_context) = CONNECTED \<and>
   stopsPending (run
     [EvInit ''tok'', EvStartBegin 0 0 (Obj []) None, EvRender,
      EvStartSettled (Resolved (Some ''sid'')),
      EvFire STREAM_READY \<lparr>d_media = 5, d_quality = GOOD, d_message = [], d_now = 0\<rparr>]
     initial_context) = 0"
proof -
  have 1: "list_all stop_succeeds
     [EvInit ''tok'', EvStartBegin 0 0 (Obj []) None, EvRender,
      EvStartSettled (Resolved (Some ''sid'')),
      EvFire STREAM_READY \<lparr>d_media = 5, d_quality = GOOD, d_message = [], d_now = 0\<rparr>]"
    by simp
  have 2: "orderly
     [EvInit ''tok'', EvStartBegin 0 0 (Obj []) None, EvRender,
      EvStartSettled (Resolved (Some ''sid'')),
      EvFire STREAM_READY \<lparr>d_media = 5, d_quality = GOOD, d_message = [], d_now = 0\<rparr>]
     initial_context"
    by code_simp
  have 3: "stream (run
     [EvInit ''tok'', EvStartBegin 0 0 (Obj []) None, EvRender,
      EvStartSettled (Resolved (Some ''sid'')),
      EvFire STREAM_READY \<lparr>d_media = 5, d_quality = GOOD, d_message = [], d_now = 0\<rparr>]
     initial_context) = Some 5"
    by code_simp
  show ?thesis
    using 1 2 3 session_identifiers_invariant
      [of "[EvInit ''tok'', EvStartBegin 0 0 (Obj []) None, EvRender,
            EvStartSettled (Resolved (Some ''sid'')),
            EvFire STREAM_READY \<lparr>d_media = 5, d_quality = GOOD, d_message = [], d_now = 0\<rparr>]"]
    by simp
qed

text \<open>
  The claim as written fails after \<^verbatim>\<open>init\<close> alone: the token is stored and the state is
  still \<open>INACTIVE\<close>.
\<close>

theorem token_stored_while_inactive_counterexample:
  "sessionState (run [EvInit ''tok''] initial_context) = INACTIVE \<and>
   sessionToken (run [EvInit ''tok''] initial_context) = Some ''tok''"
  by (simp add: run_def init_def initial_context_def)

text \<open>
  The two conditions are needed. While a \<^verbatim>\<open>stop\<close> waits for \<^verbatim>\<open>stopAvatar\<close>, the state is
  \<open>CONNECTED\<close> and the media stream is null. And \<^verbatim>\<open>start\<close> called a second time through the
  closure of the first render, which shows \<open>INACTIVE\<close>, passes its guard and sets
  \<open>CONNECTING\<close> while the media stream of the first session is held.
\<close>

lemma connected_without_stream_while_stopping:
  "sessionState (run
     [EvInit ''tok'', EvStartBegin 0 0 (Obj []) None, EvRender,
      EvFire STREAM_READY \<lparr>d_media = 5, d_quality = GOOD, d_message = [], d_now = 0\<rparr>,
      EvRender, EvStopBegin 1 2] initial_context) = CONNECTED \<and>
   stream (run
     [EvInit ''tok'', EvStartBegin 0 0 (Obj []) None, EvRender,
      EvFire STREAM_READY \<lparr>d_media = 5, d_quality = GOOD, d_message = [], d_now = 0\<rparr>,
      EvRender, EvStopBegin 1 2] initial_context) = None \<and>
   stopsPending (run
     [EvInit ''tok'', EvStartBegin 0 0 (Obj []) None, EvRender,
      EvFire STREAM_READY \<lparr>d_media = 5, d_quality = GOOD, d_message = [], d_now = 0\<rparr>,
      EvRender, EvStopBegin 1 2] initial_context) = 1"
  by code_simp

lemma connecting_with_stream_after_stale_start:
  "sessionState (run
     [EvInit ''tok'', EvStartBegin 0 0 (Obj []) None, EvRender,
      EvFire STREAM_READY \<lparr>d_media = 5, d_quality = GOOD, d_message = [], d_now = 0\<rparr>,
      EvRender, EvInit ''tok2'', EvStartBegin 0 0 (Obj []) None] initial_context) = CONNECTING \<and>
   stream (run
     [EvInit ''tok'', EvStartBegin 0 0 (Obj []) None, EvRender,
      EvFire STREAM_READY \<lparr>d_media = 5, d_quality = GOOD, d_message = [], d_now = 0\<rparr>,
      EvRender, EvInit ''tok2'', EvStartBegin 0 0 (Obj []) None] initial_context) = Some 5"
  by code_simp

subsection \<open>Listeners after a stop\<close>

lemma start_listeners_registered:
  assumes "avatarRef ctx \<noteq> None" and "gen < length (renders ctx)"
    and "r_sessionState (renders ctx ! gen) = INACTIVE"
  shows "set (listeners_of (session_step (EvStartBegin inst gen config token) ctx)) =
           set (listeners_of ctx) \<union> set (start_listeners inst gen)"
proof -
  from assms(1,3) obtain c where
    s: "start_begin inst gen (r_sessionState (renders ctx ! gen)) config token ctx = Inr c"
    by (auto simp: start_begin_def Let_def split: option.splits)
  from listeners_of_start_begin [OF s] assms(1)
  have "set (listeners_of c) = set (listeners_of ctx) \<union> set (start_listeners inst gen)" by simp
  with s assms(2) show ?thesis by simp
qed

lemma stop_listeners_same: "set (stop_listeners inst gen) = set (start_listeners inst gen)"
  by (simp add: start_listeners_def stop_listeners_def)

lemma stop_listeners_other_render:
  "gen' \<noteq> gen \<Longrightarrow>
   set (start_listeners inst gen) - set (stop_listeners inst gen') = set (render_listeners inst gen)"
  by (auto simp: start_listeners_def stop_listeners_def render_listeners_def)

lemma stop_listeners_other_hook:
  "gen' \<noteq> gen \<Longrightarrow> inst' \<noteq> inst \<Longrightarrow>
   set (start_listeners inst gen) - set (stop_listeners inst' gen') = set (start_listeners inst gen)"
  by (auto simp: start_listeners_def stop_listeners_def)

text \<open>
  Claim C4 at the input where the code departs from it. After \<^verbatim>\<open>start\<close> has passed its
  guard, its eleven listeners are on the handle. The \<^verbatim>\<open>stop\<close> of the same hook instance and
  the same render, which is the function registered for \<^verbatim>\<open>STREAM_DISCONNECTED\<close>, removes
  all of them. The \<^verbatim>\<open>stop\<close> of any other render leaves the listeners that are function
  objects of the render of \<^verbatim>\<open>start\<close> on the handle: \<^verbatim>\<open>stop\<close> itself and the three message
  handlers, under five event types; and these are all it leaves when it is the \<^verbatim>\<open>stop\<close> of
  the same hook instance. The \<^verbatim>\<open>stop\<close> of another hook instance and another render leaves
  all eleven. Every call of \<^verbatim>\<open>start\<close> that passes its guard sets the session state, so the
  provider has rendered again before a \<^verbatim>\<open>stop\<close> can be called from the user interface.
\<close>

theorem start_listeners_survive_stop:
  assumes "avatarRef ctx \<noteq> None" and "gen < length (renders ctx)"
    and "r_sessionState (renders ctx ! gen) = INACTIVE"
  shows "set (start_listeners inst gen) \<subseteq>
           set (listeners_of (session_step (EvStartBegin inst gen config token) ctx)) \<and>
         set (start_listeners inst gen) \<inter>
           set (listeners_of (stop_begin inst gen
             (rerender (session_step (EvStartBegin inst gen config token) ctx)))) = {} \<and>
         (gen' \<noteq> gen \<longrightarrow>
            set (start_listeners inst gen) \<inter>
              set (listeners_of (stop_begin inst gen'
                (rerender (session_step (EvStartBegin inst gen config token) ctx)))) =
            set (render_listeners inst gen)) \<and>
         (gen' \<noteq> gen \<longrightarrow>
            set (render_listeners inst gen) \<subseteq>
              set (listeners_of (stop_begin inst' gen'
                (rerender (session_step (EvStartBegin inst gen config token) ctx))))) \<and>
         (gen' \<noteq> gen \<and> inst' \<noteq> inst \<longrightarrow>
            set (start_listeners inst gen) \<subseteq>
              set (listeners_of (stop_begin inst' gen'
                (rerender (session_step (EvStartBegin inst gen config token) ctx)))))"
proof -
  let ?c = "session_step (EvStartBegin inst gen config token) ctx"
  have reg: "set (listeners_of ?c) = set (listeners_of ctx) \<union> set (start_listeners inst gen)"
    using assms by (rule start_listeners_registered)
  have after: "\<And>i g. set (start_listeners inst gen) \<inter> set (listeners_of (stop_begin i g (rerender ?c)))
                  = set (start_listeners inst gen) - set (stop_listeners i g)"
    using reg by (auto simp: listeners_of_stop_begin listeners_of_rerender)
  have 1: "set (start_listeners inst gen) \<subseteq> set (listeners_of ?c)" using reg by simp
  have 2: "set (start_listeners inst gen) \<inter> set (listeners_of (stop_begin inst gen (rerender ?c))) = {}"
    using after [of inst gen] by (simp add: stop_listeners_same)
  have sub: "set (render_listeners inst gen) \<subseteq> set (start_listeners inst gen)"
    by (auto simp: render_listeners_def start_listeners_def)
  have 3: "gen' \<noteq> gen \<longrightarrow>
      set (render_listeners inst gen) \<subseteq> set (listeners_of (stop_begin inst' gen' (rerender ?c)))"
  proof
    assume g: "gen' \<noteq> gen"
    have "set (render_listeners inst gen) \<subseteq> set (start_listeners inst gen) - set (stop_listeners inst' gen')"
      using g sub by (auto simp: render_listeners_def stop_listeners_def)
    with after [of inst' gen']
    show "set (render_listeners inst gen) \<subseteq> set (listeners_of (stop_begin inst' gen' (rerender ?c)))"
      by blast
  qed
  have 4: "gen' \<noteq> gen \<and> inst' \<noteq> inst \<longrightarrow>
      set (start_listeners inst gen) \<subseteq> set (listeners_of (stop_begin inst' gen' (rerender ?c)))"
  proof
    assume g: "gen' \<noteq> gen \<and> inst' \<noteq> inst"
    then have "set (start_listeners inst gen) - set (stop_listeners inst' gen') = set (start_listeners inst gen)"
      by (simp add: stop_listeners_other_hook)
    with after [of inst' gen']
    show "set (start_listeners inst gen) \<subseteq> set (listeners_of (stop_begin inst' gen' (rerender ?c)))"
      by blast
  qed
  have 5: "gen' \<noteq> gen \<longrightarrow>
      set (start_listeners inst gen) \<inter> set (listeners_of (stop_begin inst gen' (rerender ?c))) =
      set (render_listeners inst gen)"
    using after [of inst gen'] by (simp add: stop_listeners_other_render)
  from 1 2 3 4 5 show ?thesis by blast
qed

theorem start_listeners_survive_stop_witness:
  "avatarRef (init ''tok'' initial_context) \<noteq> None \<and>
   0 < length (renders (init ''tok'' initial_context)) \<and>
   r_sessionState (renders (init ''tok'' initial_context) ! 0) = INACTIVE \<and>
   set (render_listeners 0 0) \<subseteq>
     set (listeners_of (stop_begin 0 1
       (rerender (session_step (EvStartBegin 0 0 (Obj []) None) (init ''tok'' initial_context))))) \<and>
   set (start_listeners 0 0) \<subseteq>
     set (listeners_of (stop_begin 1 1
       (rerender (session_step (EvStartBegin 0 0 (Obj []) None) (init ''tok'' initial_context)))))"
proof -
  have 1: "avatarRef (init ''tok'' initial_context) \<noteq> None" by (simp add: init_def)
  have 2: "0 < length (renders (init ''tok'' initial_context))" by (simp add: renders_def)
  have 3: "r_sessionState (renders (init ''tok'' initial_context) ! 0) = INACTIVE"
    by (simp add: renders_def init_def initial_context_def)
  from start_listeners_survive_stop [OF 1 2 3, of 0 "Obj []" None 1 0]
    start_listeners_survive_stop [OF 1 2 3, of 0 "Obj []" None 1 1]
  show ?thesis using 1 2 3 by simp
qed

text \<open>
  A session as the application runs it: \<^verbatim>\<open>startSessionV2\<close> with enough credits, the render
  that follows the state change, \<^verbatim>\<open>STREAM_READY\<close>, the render that shows the close button of
  \<^verbatim>\<open>AvatarVideo\<close>, and a click on it, which calls the \<^verbatim>\<open>stop\<close> of the hook instance of
  \<^verbatim>\<open>AvatarVideo\<close>. When \<^verbatim>\<open>stopAvatar\<close> has returned, the ten closures of \<^verbatim>\<open>startSessionV2\<close> and
  the eleven listeners of \<^verbatim>\<open>start\<close> are all on the handle.
\<close>

lemma listeners_after_close_button:
  "listeners_of (run
      [EvRender,
       EvFire STREAM_READY \<lparr>d_media = 5, d_quality = GOOD, d_message = [], d_now = 0\<rparr>,
       EvRender, EvStopBegin 1 2, EvStopSettled None]
      (startSessionV2
        \<lparr>quotaCheck = QuotaResponse 200 (Some \<lparr>credits = 10, minutes = 50, activeSessions = 0\<rparr>),
         confirmAnswer = False, accessToken = Inr ''tok'',
         createStartAvatar_outcome = Resolved (Some ''sid'')\<rparr>
        False (Obj []) initial_context)) =
     [(AVATAR_START_TALKING, Anonymous 0), (AVATAR_STOP_TALKING, Anonymous 1),
      (STREAM_DISCONNECTED, Anonymous 2), (STREAM_READY, Anonymous 3),
      (USER_START, Anonymous 4), (USER_STOP, Anonymous 5), (USER_END_MESSAGE, Anonymous 6),
      (USER_TALKING_MESSAGE, Anonymous 7), (AVATAR_TALKING_MESSAGE, Anonymous 8),
      (AVATAR_END_MESSAGE, Anonymous 9)] @ start_listeners 0 0"
  by code_simp

lemma listeners_after_vendor_disconnect:
  "listeners_of (run
      [EvRender,
       EvFire STREAM_READY \<lparr>d_media = 5, d_quality = GOOD, d_message = [], d_now = 0\<rparr>,
       EvRender,
       EvFire STREAM_DISCONNECTED \<lparr>d_media = 0, d_quality = GOOD, d_message = [], d_now = 0\<rparr>,
       EvStopSettled None]
      (startSessionV2
        \<lparr>quotaCheck = QuotaResponse 200 (Some \<lparr>credits = 10, minutes = 50, activeSessions = 0\<rparr>),
         confirmAnswer = False, accessToken = Inr ''tok'',
         createStartAvatar_outcome = Resolved (Some ''sid'')\<rparr>
        False (Obj []) initial_context)) =
     [(AVATAR_START_TALKING, Anonymous 0), (AVATAR_STOP_TALKING, Anonymous 1),
      (STREAM_DISCONNECTED, Anonymous 2), (STREAM_READY, Anonymous 3),
      (USER_START, Anonymous 4), (USER_STOP, Anonymous 5), (USER_END_MESSAGE, Anonymous 6),
      (USER_TALKING_MESSAGE, Anonymous 7), (AVATAR_TALKING_MESSAGE, Anonymous 8),
      (AVATAR_END_MESSAGE, Anonymous 9)]"
  by code_simp


section \<open>Properties of the quota gate\<close>

lemma session_start_logic_trace:
  "\<exists>rest. trace (session_start_logic env v cfg c) = trace c @ FetchAccessToken # rest"
proof -
  have anon: "\<And>c evs. trace (foldl (\<lambda>c ev. on_anonymous ev c) c evs) = trace c"
  proof -
    fix c :: "context" and evs
    show "trace (foldl (\<lambda>c ev. on_anonymous ev c) c evs) = trace c"
      by (induction evs arbitrary: c) (simp_all add: on_anonymous_def split: option.splits)
  qed
  have st: "\<And>i g sn c oc. \<exists>rest. trace (snd (start i g sn cfg None oc c)) = trace c @ rest"
    by (auto simp: start_def start_begin_def start_settled_def emit_def init_def Let_def
             split: sum.splits option.splits create_outcome.splits if_splits)
  show ?thesis
  proof (cases "accessToken env")
    case (Inl e)
    then show ?thesis by (simp add: session_start_logic_def Let_def catch_cleanup_def emit_def)
  next
    case (Inr tok)
    let ?c3 = "foldl (\<lambda>c ev. on_anonymous ev c)
                 ((init tok (emit FetchAccessToken c))\<lparr>shouldStartVoiceChatRef := v\<rparr>) anonymous_events"
    have t3: "trace ?c3 = trace c @ [FetchAccessToken]"
      by (simp add: anon init_def emit_def)
    let ?start = "start InteractiveAvatar_hook (generation c) (r_sessionState (currentRender c))
                    cfg None (createStartAvatar_outcome env) ?c3"
    from st [of InteractiveAvatar_hook "generation c" "r_sessionState (currentRender c)"
                "createStartAvatar_outcome env" ?c3]
    obtain rest where r: "trace (snd ?start) = trace ?c3 @ rest"
      by blast
    obtain er c4 where s: "?start = (er, c4)"
      by (cases ?start)
    with r t3 have "trace c4 = trace c @ FetchAccessToken # rest" by simp
    with Inr s show ?thesis
      by (cases er) (auto simp: session_start_logic_def Let_def catch_cleanup_def emit_def)
  qed
qed

lemma quota_gate_zero:
  assumes "quotaCheck env = QuotaResponse status (Some q)" "response_ok status" "credits q = 0"
  shows "startSessionV2 env v cfg c = emit (Alert NoCreditsAlert) (emit FetchQuotaCheck c)"
  using assms by (simp add: startSessionV2_def Let_def)

lemma quota_gate_low:
  assumes "quotaCheck env = QuotaResponse status (Some q)" "response_ok status" "credits q = 1"
  shows "startSessionV2 env v cfg c =
           (if confirmAnswer env
            then session_start_logic env v cfg (emit (Confirm LowCreditsConfirm) (emit FetchQuotaCheck c))
            else emit (Confirm LowCreditsConfirm) (emit FetchQuotaCheck c))"
  using assms by (simp add: startSessionV2_def Let_def)

lemma quota_gate_enough:
  assumes "quotaCheck env = QuotaResponse status (Some q)" "response_ok status" "2 \<le> credits q"
  shows "startSessionV2 env v cfg c = session_start_logic env v cfg (emit FetchQuotaCheck c)"
  using assms by (simp add: startSessionV2_def Let_def)

lemma quota_gate_not_ok:
  assumes "quotaCheck env = QuotaResponse status body" "\<not> response_ok status"
  shows "startSessionV2 env v cfg c = session_start_logic env v cfg (emit FetchQuotaCheck c)"
  using assms by (simp add: startSessionV2_def Let_def)

text \<open>
  Claim C7 at the input where the code departs from it. When the quota request itself
  throws, the error reaches the \<^verbatim>\<open>catch\<close> block of \<^verbatim>\<open>startSessionV2\<close>: no access token is
  requested, no handle is built and the session state is unchanged. The session start does
  not proceed. (For a response that is not ok it does proceed, see \<open>quota_gate_not_ok\<close>.)
\<close>

theorem quota_check_throw_blocks_start:
  "startSessionV2 (env\<lparr>quotaCheck := QuotaFetchThrew e\<rparr>) isVoiceChat config ctx =
     catch_cleanup (emit FetchQuotaCheck ctx) \<and>
   trace (startSessionV2 (env\<lparr>quotaCheck := QuotaFetchThrew e\<rparr>) isVoiceChat config ctx) =
     trace ctx @ [FetchQuotaCheck] \<and>
   avatarRef (startSessionV2 (env\<lparr>quotaCheck := QuotaFetchThrew e\<rparr>) isVoiceChat config ctx) =
     avatarRef ctx \<and>
   sessionState (startSessionV2 (env\<lparr>quotaCheck := QuotaFetchThrew e\<rparr>) isVoiceChat config ctx) =
     sessionState ctx"
  by (simp add: startSessionV2_def Let_def catch_cleanup_def emit_def)


section \<open>Properties of the voice trigger\<close>

lemma effect_blocked: "processingRef r \<Longrightarrow> voiceChatEffect msgs a p r = (r, None)"
  by (simp add: voiceChatEffect_def)

lemma effect_invokes:
  assumes "voiceChatEffect msgs a p r = (r', Some m)"
  shows "\<not> processingRef r" and "processingRef r'"
    and "lastProcessedMessageIdRef r' = Some (msg_id (last msgs))"
    and "m = content (last msgs)"
  using assms by (auto simp: voiceChatEffect_def Let_def split: if_splits)

lemma effect_marked:
  "lastProcessedMessageIdRef r = Some (msg_id (last msgs)) \<Longrightarrow> voiceChatEffect msgs a p r = (r, None)"
  by (simp add: voiceChatEffect_def Let_def)

lemma effect_no_invocation: "voiceChatEffect msgs a p r = (r', None) \<Longrightarrow> r' = r"
  by (auto simp: voiceChatEffect_def Let_def split: if_splits)

lemma integration_step_inv:
  assumes "flight_inv s"
  shows "flight_inv (integration_step e s)"
proof (cases e)
  case (EffectRuns msgs a p)
  obtain r' inv where v: "voiceChatEffect msgs a p (refs s) = (r', inv)"
    by (cases "voiceChatEffect msgs a p (refs s)")
  show ?thesis
  proof (cases inv)
    case None
    with v have "r' = refs s" by (simp add: effect_no_invocation)
    with assms EffectRuns v None show ?thesis by (simp add: flight_inv_def)
  next
    case (Some m)
    with v have "\<not> processingRef (refs s)" "processingRef r'"
      by (auto dest: effect_invokes)
    with assms EffectRuns v Some show ?thesis by (auto simp: flight_inv_def)
  qed
next
  case TurnSettles
  with assms show ?thesis by (auto simp: flight_inv_def processMessage_finally_def)
qed

lemma integration_run_inv: "flight_inv s \<Longrightarrow> flight_inv (integration_run evs s)"
  unfolding integration_run_def
  by (induction evs arbitrary: s) (simp_all add: integration_step_inv)

lemma initial_flight_inv: "flight_inv initial_integration"
  by (simp add: flight_inv_def initial_integration_def)

lemma effect_fresh_message:
  assumes "\<not> processingRef r" and "msgs \<noteq> []" and "sender (last msgs) = CLIENT"
    and "isComplete (last msgs)" and "trim (content (last msgs)) \<noteq> []"
    and "lastProcessedMessageIdRef r \<noteq> Some (msg_id (last msgs))"
  shows "voiceChatEffect msgs True False r =
           (\<lparr>lastProcessedMessageIdRef = Some (msg_id (last msgs)), processingRef = True\<rparr>,
            Some (content (last msgs)))"
  using assms by (auto simp: voiceChatEffect_def Let_def)

text \<open>
  Claim C9. Take any state the hook can be in with none of its turns in flight, and a newly
  complete client message: the last message is from the client, complete, not blank, and
  not the one marked as processed. An evaluation of the effect, in a render with the voice
  chat active and no LLM turn processing, invokes exactly one turn with the content of the
  message, and has set the reentrancy guard and the marker when it returns, that is before
  the first suspension of the turn. A second evaluation while that turn is in flight, for
  the same message or with whatever values its render holds, changes nothing: two
  evaluations give one invocation. When the turn has settled the guard is cleared and no
  turn is in flight, so that the next new message is invoked in its turn, and a further
  evaluation for the same message invokes nothing. Over every run of the hook at most one
  of the turns it invoked is in flight.
\<close>

theorem one_invocation_per_trigger:
  assumes "s = integration_run evs initial_integration" and "inFlight s = 0"
    and "msgs \<noteq> []" and "sender (last msgs) = CLIENT" and "isComplete (last msgs)"
    and "trim (content (last msgs)) \<noteq> []"
    and "lastProcessedMessageIdRef (refs s) \<noteq> Some (msg_id (last msgs))"
  shows "integration_run [EffectRuns msgs True False] s =
           s\<lparr>refs := \<lparr>lastProcessedMessageIdRef = Some (msg_id (last msgs)),
                       processingRef = True\<rparr>,
             inFlight := 1,
             invocations := invocations s @ [content (last msgs)]\<rparr> \<and>
         integration_run [EffectRuns msgs True False, EffectRuns msgs' a' p'] s =
           integration_run [EffectRuns msgs True False] s \<and>
         integration_run [EffectRuns msgs True False, EffectRuns msgs' a' p', TurnSettles] s =
           s\<lparr>refs := \<lparr>lastProcessedMessageIdRef = Some (msg_id (last msgs)),
                       processingRef = False\<rparr>,
             inFlight := 0,
             invocations := invocations s @ [content (last msgs)]\<rparr> \<and>
         integration_run [EffectRuns msgs True False, EffectRuns msgs' a' p', TurnSettles,
                          EffectRuns msgs a'' p''] s =
           integration_run [EffectRuns msgs True False, EffectRuns msgs' a' p', TurnSettles] s \<and>
         inFlight (integration_run evs' initial_integration) \<le> 1"
proof -
  let ?r = "\<lparr>lastProcessedMessageIdRef = Some (msg_id (last msgs)), processingRef = True\<rparr>"
  let ?s1 = "s\<lparr>refs := ?r, inFlight := 1, invocations := invocations s @ [content (last msgs)]\<rparr>"
  let ?s2 = "s\<lparr>refs := \<lparr>lastProcessedMessageIdRef = Some (msg_id (last msgs)),
                          processingRef = False\<rparr>,
                inFlight := 0, invocations := invocations s @ [content (last msgs)]\<rparr>"
  have "flight_inv s"
    unfolding assms(1) using initial_flight_inv by (rule integration_run_inv)
  with assms(2) have idle: "\<not> processingRef (refs s)" by (simp add: flight_inv_def)
  have first: "voiceChatEffect msgs True False (refs s) = (?r, Some (content (last msgs)))"
    using idle assms(3-7) by (rule effect_fresh_message)
  have 1: "integration_step (EffectRuns msgs True False) s = ?s1"
    using first assms(2) by simp
  have blocked: "voiceChatEffect msgs' a' p' ?r = (?r, None)"
    by (rule effect_blocked) simp
  have 2: "integration_step (EffectRuns msgs' a' p') ?s1 = ?s1"
    using blocked by simp
  have 3: "integration_step TurnSettles ?s1 = ?s2"
    by (simp add: processMessage_finally_def)
  have marked: "voiceChatEffect msgs a'' p''
                  \<lparr>lastProcessedMessageIdRef = Some (msg_id (last msgs)), processingRef = False\<rparr> =
                (\<lparr>lastProcessedMessageIdRef = Some (msg_id (last msgs)), processingRef = False\<rparr>, None)"
    by (rule effect_marked) simp
  have 4: "integration_step (EffectRuns msgs a'' p'') ?s2 = ?s2"
    using marked by simp
  have "flight_inv (integration_run evs' initial_integration)"
    using initial_flight_inv by (rule integration_run_inv)
  then have 5: "inFlight (integration_run evs' initial_integration) \<le> 1"
    by (simp add: flight_inv_def)
  show ?thesis
    using 1 2 3 4 5 by (simp add: integration_run_def)
qed

theorem one_invocation_per_trigger_witness:
  "inFlight (integration_run
      [EffectRuns [\<lparr>msg_id = ''17'', sender = CLIENT, content = ''hi'', isComplete = True\<rparr>]
         True False, TurnSettles] initial_integration) = 0 \<and>
   invocations (integration_run
      [EffectRuns [\<lparr>msg_id = ''17'', sender = CLIENT, content = ''hi'', isComplete = True\<rparr>,
                   \<lparr>msg_id = ''18'', sender = CLIENT, content = ''yo'', isComplete = True\<rparr>]
         True False,
       EffectRuns [\<lparr>msg_id = ''17'', sender = CLIENT, content = ''hi'', isComplete = True\<rparr>,
                   \<lparr>msg_id = ''18'', sender = CLIENT, content = ''yo'', isComplete = True\<rparr>]
         True False]
      (integration_run
        [EffectRuns [\<lparr>msg_id = ''17'', sender = CLIENT, content = ''hi'', isComplete = True\<rparr>]
           True False, TurnSettles] initial_integration)) = [''hi'', ''yo'']"
proof -
  let ?hi = "\<lparr>msg_id = ''17'', sender = CLIENT, content = ''hi'', isComplete = True\<rparr>"
  let ?yo = "\<lparr>msg_id = ''18'', sender = CLIENT, content = ''yo'', isComplete = True\<rparr>"
  let ?s = "integration_run [EffectRuns [?hi] True False, TurnSettles] initial_integration"
  have s: "?s = \<lparr>refs = \<lparr>lastProcessedMessageIdRef = Some ''17'', processingRef = False\<rparr>,
                 inFlight = 0, invocations = [''hi'']\<rparr>"
    by (simp add: integration_run_def initial_integration_def voiceChatEffect_def
          processMessage_finally_def trim_def is_space_def)
  have t: "trim ''yo'' \<noteq> []" by (simp add: trim_def is_space_def)
  from one_invocation_per_trigger
    [of ?s "[EffectRuns [?hi] True False, TurnSettles]" "[?hi, ?yo]" "[?hi, ?yo]" True False]
  show ?thesis using s t by simp
qed


section \<open>Properties of the turn relay\<close>

subsection \<open>The chunks of a stream, without the effects\<close>

lemma chunks_from_Cons:
  "chunks_from buf (c # cs) =
     (case next_chunk (buf @ c) of
        Some (t, r) \<Rightarrow> t # chunks_from r cs
      | None \<Rightarrow> chunks_from (buf @ c) cs)"
  by (simp add: chunks_from_def split: option.splits)

lemma chunks_from_Nil: "chunks_from buf [] = final_chunk buf"
  by (simp add: chunks_from_def)

subsection \<open>White space and sentence ends\<close>

lemma space_not_terminal: "is_space c \<Longrightarrow> \<not> is_terminal c"
  by (auto simp: is_space_def is_terminal_def)

lemma trim_Nil [simp]: "trim [] = []"
  by (simp add: trim_def)

lemma trim_leading_space: "is_space a \<Longrightarrow> trim (a # s) = trim s"
  by (simp add: trim_def)

lemma trim_trailing_space: "is_space a \<Longrightarrow> trim (s @ [a]) = trim s"
proof (cases "\<forall>c \<in> set s. is_space c")
  case True
  assume a: "is_space a"
  from True a have "\<forall>c \<in> set (s @ [a]). is_space c" by simp
  then have 1: "dropWhile is_space (s @ [a]) = []" by (metis dropWhile_eq_Nil_conv)
  from True have 2: "dropWhile is_space s = []" by (metis dropWhile_eq_Nil_conv)
  show ?thesis unfolding trim_def 1 2 by simp
next
  case False
  assume a: "is_space a"
  from False have "dropWhile is_space (s @ [a]) = dropWhile is_space s @ [a]"
    by (auto simp: dropWhile_append1)
  with a show ?thesis by (simp add: trim_def)
qed

lemma trim_ends_nonspace: "\<not> is_space t \<Longrightarrow> trim (w @ [t]) \<noteq> []"
proof -
  assume t: "\<not> is_space t"
  have "dropWhile is_space (w @ [t]) \<noteq> [] \<and> last (dropWhile is_space (w @ [t])) = t"
  proof (induction w)
    case Nil
    with t show ?case by simp
  next
    case (Cons a w)
    then show ?case by simp
  qed
  then obtain ys where ys: "dropWhile is_space (w @ [t]) = ys @ [t]"
    by (metis append_butlast_last_id)
  with t show ?thesis by (simp add: trim_def)
qed

lemma sentence_match_none: "no_terminal p \<Longrightarrow> sentence_match p = None"
  by (induction p) (simp_all add: no_terminal_def)

lemma sentence_match_shift:
  "no_terminal p \<Longrightarrow>
   sentence_match (p @ q) = map_option (\<lambda>(i, l). (length p + i, l)) (sentence_match q)"
proof (induction p)
  case Nil
  then show ?case by (simp add: option.map_ident case_prod_unfold)
next
  case (Cons a p)
  then have "\<not> is_terminal a" "no_terminal p" by (simp_all add: no_terminal_def)
  with Cons.IH show ?case
    by (simp add: option.map_comp comp_def case_prod_unfold)
qed

lemma next_chunk_none:
  "no_terminal b \<Longrightarrow> length b \<le> MAX_BUFFER_LENGTH \<Longrightarrow> next_chunk b = None"
  by (simp add: next_chunk_def lastSentenceEnd_def sentence_match_none)

lemma next_chunk_split:
  assumes "sentence_match b = Some (i, l)" "0 < i + l" "trim (take (i + l) b) \<noteq> []"
  shows "next_chunk b = Some (trim (take (i + l) b), drop (i + l) b)"
proof -
  define e where "e = lastSentenceEnd b"
  have e: "e = int (i + l)" using assms(1) by (simp add: e_def lastSentenceEnd_def)
  then have pos: "e > 0" and n: "nat e = i + l" using assms(2) by linarith+
  have "next_chunk b =
          (if length (trim (take (nat e) b)) > 0
           then Some (trim (take (nat e) b), drop (nat e) b) else None)"
    using pos by (simp add: next_chunk_def Let_def e_def)
  with n assms(3) show ?thesis by simp
qed

lemma next_chunk_at_end:
  assumes "no_terminal p" "is_terminal t"
  shows "next_chunk (p @ [t]) = Some (trim (p @ [t]), [])"
proof -
  have m: "sentence_match (p @ [t]) = Some (length p, 1)"
    using assms by (simp add: sentence_match_shift)
  have "\<not> is_space t" using assms(2) space_not_terminal by blast
  then have "trim (p @ [t]) \<noteq> []" by (rule trim_ends_nonspace)
  then have "trim (take (length p + 1) (p @ [t])) \<noteq> []" by simp
  from next_chunk_split [OF m _ this] show ?thesis by simp
qed

lemma next_chunk_before_space:
  assumes "no_terminal p" "is_terminal t" "is_space w"
  shows "next_chunk (p @ t # w # q) = Some (trim (p @ [t]), q)"
proof -
  have "\<not> is_terminal w" using assms(3) by (rule space_not_terminal)
  then have "sentence_match (t # w # q) = Some (0, 2)"
    using assms by simp
  then have m: "sentence_match (p @ t # w # q) = Some (length p, 2)"
    using assms(1) by (simp add: sentence_match_shift)
  have tk: "take (length p + 2) (p @ t # w # q) = (p @ [t]) @ [w]" by simp
  have dr: "drop (length p + 2) (p @ t # w # q) = q" by simp
  have "\<not> is_space t" using assms(2) space_not_terminal by blast
  then have ne: "trim (p @ [t]) \<noteq> []" by (rule trim_ends_nonspace)
  have tr: "trim ((p @ [t]) @ [w]) = trim (p @ [t])"
    using assms(3) by (rule trim_trailing_space)
  have "trim (take (length p + 2) (p @ t # w # q)) \<noteq> []"
    unfolding tk tr by (rule ne)
  from next_chunk_split [OF m _ this] show ?thesis
    unfolding tk tr dr by simp
qed

subsection \<open>A text of two sentences\<close>

lemma concat_nonempty_Nil: "\<forall>c \<in> set cs. c \<noteq> [] \<Longrightarrow> concat cs = [] \<Longrightarrow> cs = []"
  by (cases cs) auto

lemma concat_nonempty_single:
  assumes "\<forall>c \<in> set cs. c \<noteq> []" "concat cs = [x]"
  shows "cs = [[x]]"
proof (cases cs)
  case Nil
  with assms show ?thesis by simp
next
  case (Cons c cs')
  with assms have c: "c \<noteq> []" and eq: "c @ concat cs' = [x]" by simp_all
  then have "c = [x]" "concat cs' = []" by (auto simp: append_eq_Cons_conv)
  moreover from assms(1) Cons have "\<forall>c \<in> set cs'. c \<noteq> []" by simp
  ultimately show ?thesis using Cons concat_nonempty_Nil by blast
qed

lemma append_eq_cases:
  "b @ x = w @ y \<Longrightarrow> (\<exists>us. b = w @ us \<and> us @ x = y) \<or> (\<exists>us. b @ us = w \<and> x = us @ y)"
  by (auto simp: append_eq_append_conv2)

lemma final_chunk_space: "is_space sp \<Longrightarrow> final_chunk [sp] = []"
  by (simp add: final_chunk_def trim_def)

lemma second_sentence:
  assumes "no_terminal w" "is_terminal t" "is_space sp" "length w + 2 \<le> MAX_BUFFER_LENGTH"
    and "\<forall>c \<in> set cs. c \<noteq> []" and "r @ concat cs = w @ [t, sp]"
  shows "chunks_from r cs = [trim (w @ [t])]"
  using assms(5,6)
proof (induction cs arbitrary: r)
  case Nil
  then have "r = (w @ [t]) @ [sp]" by simp
  moreover have "trim ((w @ [t]) @ [sp]) = trim (w @ [t])"
    using assms(3) by (rule trim_trailing_space)
  moreover have "trim (w @ [t]) \<noteq> []"
    using assms(2) space_not_terminal trim_ends_nonspace by blast
  ultimately show ?case by (simp add: chunks_from_Nil final_chunk_def)
next
  case (Cons c cs)
  let ?b = "r @ c"
  from Cons.prems have ne: "\<forall>c \<in> set cs. c \<noteq> []" and eq: "?b @ concat cs = w @ [t, sp]"
    by simp_all
  from append_eq_cases [OF eq] obtain us where
    "(?b = w @ us \<and> us @ concat cs = [t, sp]) \<or> (?b @ us = w \<and> concat cs = us @ [t, sp])"
    by blast
  then consider
      (inside) us' where "?b @ us' = w"
    | (at_end) "?b = w @ [t]" "concat cs = [sp]"
    | (past) "?b = w @ [t, sp]" "concat cs = []"
  proof (elim disjE conjE)
    assume b: "?b = w @ us" and u: "us @ concat cs = [t, sp]"
    from u have "us = [] \<or> us = [t] \<or> us = [t, sp]"
      by (cases us; cases "tl us"; auto simp: append_eq_Cons_conv)
    with b u show ?thesis
      using that(1) [of "[]"] that(2) that(3) by auto
  next
    assume "?b @ us = w"
    then show ?thesis by (rule that(1))
  qed
  then show ?case
  proof cases
    case inside
    with assms(1) have nt: "no_terminal ?b" by (auto simp: no_terminal_def)
    from inside assms(4) have "length ?b \<le> MAX_BUFFER_LENGTH"
      by (metis add_leD1 le_trans length_append le_add1)
    with nt have "next_chunk ?b = None" by (rule next_chunk_none)
    then show ?thesis using Cons.IH [OF ne eq] by (simp add: chunks_from_Cons)
  next
    case at_end
    have nc: "next_chunk ?b = Some (trim (w @ [t]), [])"
      unfolding at_end(1) using assms(1,2) by (rule next_chunk_at_end)
    from ne at_end(2) have cs: "cs = [[sp]]" by (rule concat_nonempty_single)
    have "no_terminal [sp]" using assms(3) space_not_terminal by (simp add: no_terminal_def)
    then have "next_chunk [sp] = None"
      by (rule next_chunk_none) (simp add: MAX_BUFFER_LENGTH_def)
    then have "chunks_from [] [[sp]] = []"
      using assms(3) by (simp add: chunks_from_Cons chunks_from_Nil final_chunk_space)
    with nc cs show ?thesis by (simp add: chunks_from_Cons)
  next
    case past
    have nc: "next_chunk ?b = Some (trim (w @ [t]), [])"
      unfolding past(1) using next_chunk_before_space [OF assms(1,2,3), of "[]"] by simp
    from ne past(2) have "cs = []" by (rule concat_nonempty_Nil)
    with nc show ?thesis by (simp add: chunks_from_Cons chunks_from_Nil final_chunk_def)
  qed
qed

lemma two_sentences_from:
  assumes "no_terminal v" "is_terminal t1" "is_space s1"
    and "no_terminal w" "is_terminal t2" "is_space s2"
    and "length v + length w + 4 \<le> MAX_BUFFER_LENGTH"
    and "\<forall>c \<in> set cs. c \<noteq> []"
    and "r @ concat cs = v @ t1 # s1 # w @ [t2, s2]"
    and "length r \<le> length v"
  shows "chunks_from r cs = [trim (v @ [t1]), trim (w @ [t2])]"
  using assms(8,9,10)
proof (induction cs arbitrary: r)
  case Nil
  then show ?case by simp
next
  case (Cons c cs)
  let ?b = "r @ c"
  from Cons.prems have ne: "\<forall>c \<in> set cs. c \<noteq> []"
    and eq: "?b @ concat cs = v @ t1 # s1 # w @ [t2, s2]"
    by simp_all
  from append_eq_cases [OF eq] obtain us where
    "(?b = v @ us \<and> us @ concat cs = t1 # s1 # w @ [t2, s2]) \<or>
     (?b @ us = v \<and> concat cs = us @ t1 # s1 # w @ [t2, s2])"
    by blast
  then consider
      (inside) us' where "?b @ us' = v"
    | (at_end) "?b = v @ [t1]" "concat cs = s1 # w @ [t2, s2]"
    | (past) q where "?b = v @ t1 # s1 # q" "q @ concat cs = w @ [t2, s2]"
  proof (elim disjE conjE)
    assume b: "?b = v @ us" and u: "us @ concat cs = t1 # s1 # w @ [t2, s2]"
    show ?thesis
    proof (cases us)
      case Nil
      with b show ?thesis using that(1) [of "[]"] by simp
    next
      case (Cons a us1)
      with u have a: "a = t1" and u1: "us1 @ concat cs = s1 # w @ [t2, s2]" by simp_all
      show ?thesis
      proof (cases us1)
        case Nil
        with b Cons a u1 show ?thesis using that(2) by simp
      next
        case (Cons a2 q)
        with u1 have "a2 = s1" "q @ concat cs = w @ [t2, s2]" by simp_all
        with b \<open>us = a # us1\<close> a Cons show ?thesis using that(3) [of q] by simp
      qed
    qed
  next
    assume "?b @ us = v"
    then show ?thesis by (rule that(1))
  qed
  then show ?case
  proof cases
    case inside
    with assms(1) have nt: "no_terminal ?b" by (auto simp: no_terminal_def)
    from inside have len: "length ?b \<le> length v"
      by (metis le_add1 length_append)
    with assms(7) have "length ?b \<le> MAX_BUFFER_LENGTH" by simp
    with nt have "next_chunk ?b = None" by (rule next_chunk_none)
    then show ?thesis using Cons.IH [OF ne eq len] by (simp add: chunks_from_Cons)
  next
    case at_end
    have nc: "next_chunk ?b = Some (trim (v @ [t1]), [])"
      unfolding at_end(1) using assms(1,2) by (rule next_chunk_at_end)
    have nt: "no_terminal (s1 # w)"
      using assms(3,4) space_not_terminal by (simp add: no_terminal_def)
    have "chunks_from [] cs = [trim ((s1 # w) @ [t2])]"
      using nt assms(5,6) _ ne
    proof (rule second_sentence)
      show "length (s1 # w) + 2 \<le> MAX_BUFFER_LENGTH" using assms(7) by simp
      show "[] @ concat cs = (s1 # w) @ [t2, s2]" using at_end(2) by simp
    qed
    moreover have "trim ((s1 # w) @ [t2]) = trim (w @ [t2])"
      using assms(3) by (simp add: trim_leading_space)
    ultimately show ?thesis using nc by (simp add: chunks_from_Cons)
  next
    case past
    have nc: "next_chunk ?b = Some (trim (v @ [t1]), q)"
      unfolding past(1) using assms(1,2,3) by (rule next_chunk_before_space)
    have "chunks_from q cs = [trim (w @ [t2])]"
      using assms(4,5,6) _ ne past(2)
    proof (rule second_sentence)
      show "length w + 2 \<le> MAX_BUFFER_LENGTH" using assms(7) by simp
    qed
    with nc show ?thesis by (simp add: chunks_from_Cons)
  qed
qed

lemma hello_world_chunks:
  assumes "\<forall>c \<in> set cs. c \<noteq> []" and "concat cs = ''Hello world. How are you? ''"
  shows "chunks_from [] cs = [''Hello world.'', ''How are you?'']"
proof -
  have "chunks_from [] cs = [trim (''Hello world'' @ [CHR ''.'']), trim (''How are you'' @ [CHR ''?''])]"
  proof (rule two_sentences_from [where ?s1.0 = "CHR '' ''" and ?s2.0 = "CHR '' ''"])
    show "no_terminal ''Hello world''" by (simp add: no_terminal_def is_terminal_def)
    show "no_terminal ''How are you''" by (simp add: no_terminal_def is_terminal_def)
    show "is_terminal CHR ''.''" "is_terminal CHR ''?''" by (simp_all add: is_terminal_def)
    show "is_space CHR '' ''" "is_space CHR '' ''" by (simp_all add: is_space_def)
    show "length ''Hello world'' + length ''How are you'' + 4 \<le> MAX_BUFFER_LENGTH"
      by (simp add: MAX_BUFFER_LENGTH_def)
    show "\<forall>c \<in> set cs. c \<noteq> []" by (rule assms(1))
    show "[] @ concat cs = ''Hello world'' @ CHR ''.'' # CHR '' '' # ''How are you'' @ [CHR ''?'', CHR '' '']"
      using assms(2) by simp
    show "length [] \<le> length ''Hello world''" by simp
  qed
  moreover have "trim (''Hello world'' @ [CHR ''.'']) = ''Hello world.''"
    by (simp add: trim_def is_space_def)
  moreover have "trim (''How are you'' @ [CHR ''?'']) = ''How are you?''"
    by (simp add: trim_def is_space_def)
  ultimately show ?thesis by simp
qed

subsection \<open>The dispatch of one chunk\<close>

lemma task_calls_emit:
  "task_calls (emit e c) = task_calls c + (if is_task e then 1 else 0)"
  by (simp add: task_calls_def emit_def)

lemma chunk_attempts_last:
  "chunk_attempts env txt (Suc (Suc 0)) c =
     emit (FetchTask (the (sessionId c)) (the (sessionToken c)) txt) c"
  by (simp add: chunk_attempts.simps [of _ _ "Suc (Suc 0)"] MAX_CHUNK_RETRIES_def Let_def
           split: task_outcome.splits bool.splits)

lemma chunk_attempts_first:
  "chunk_attempts env txt (Suc 0) c =
     (if retried (task_results env (task_calls c))
      then emit (FetchTask (the (sessionId c)) (the (sessionToken c)) txt)
             (emit (Sleep CHUNK_RETRY_DELAY)
                (emit (FetchTask (the (sessionId c)) (the (sessionToken c)) txt) c))
      else emit (FetchTask (the (sessionId c)) (the (sessionToken c)) txt) c)"
  by (cases "task_results env (task_calls c)")
     (auto simp: chunk_attempts.simps [of _ _ "Suc 0"] chunk_attempts_last
                 MAX_CHUNK_RETRIES_def Let_def response_ok_def emit_def
           split: bool.splits)

lemma sendChunkToAvatar_effects:
  "sendChunkToAvatar env txt ctx =
     ctx\<lparr>trace := trace ctx @ SendChunk txt # chunk_requests env txt ctx\<rparr>"
  by (simp add: sendChunkToAvatar_def chunk_attempts_first chunk_requests_def ids_ok_def
        Let_def emit_def task_calls_def)

subsection \<open>The read loop and its chunks\<close>

lemma chunks_sent_append:
  "chunks_sent buf (xs @ ys) = chunks_sent buf xs @ chunks_sent (buffer_after buf xs) ys"
  by (induction xs arbitrary: buf) (simp_all split: option.splits)

lemma buffer_after_append:
  "buffer_after buf (xs @ ys) = buffer_after (buffer_after buf xs) ys"
  by (induction xs arbitrary: buf) (simp_all split: option.splits)

lemma relates_refl: "relates env [] st st"
proof -
  have "relay_trace env (sentenceBuffer st) [] (sctx st) []"
    by (simp add: relay_trace_def requests_ok_def)
  then show ?thesis
    unfolding relates_def
    by (intro conjI exI [of _ "[]"] exI [of _ "currentLLMResponse (sctx st)"]) simp_all
qed

lemma relates_trans:
  assumes "relates env xs st st'" and "relates env ys st' st''"
  shows "relates env (xs @ ys) st st''"
proof -
  from assms(1) obtain es1 cur1 where
    1: "sctx st' = (sctx st)\<lparr>trace := trace (sctx st) @ es1, currentLLMResponse := cur1\<rparr>"
       "relay_trace env (sentenceBuffer st) xs (sctx st) es1"
    and a1: "accumulatedResponse st' = accumulatedResponse st @ concat xs"
    and b1: "sentenceBuffer st' = buffer_after (sentenceBuffer st) xs"
    unfolding relates_def by blast
  from assms(2) obtain es2 cur2 where
    2: "sctx st'' = (sctx st')\<lparr>trace := trace (sctx st') @ es2, currentLLMResponse := cur2\<rparr>"
       "relay_trace env (sentenceBuffer st') ys (sctx st') es2"
    and a2: "accumulatedResponse st'' = accumulatedResponse st' @ concat ys"
    and b2: "sentenceBuffer st'' = buffer_after (sentenceBuffer st') ys"
    unfolding relates_def by blast
  have ids: "ids_ok (sctx st') = ids_ok (sctx st)" using 1(1) by (simp add: ids_ok_def)
  have sid: "sessionId (sctx st') = sessionId (sctx st)"
    "sessionToken (sctx st') = sessionToken (sctx st)"
    using 1(1) by simp_all
  have c: "sctx st'' = (sctx st)\<lparr>trace := trace (sctx st) @ (es1 @ es2),
                                   currentLLMResponse := cur2\<rparr>"
    using 1(1) 2(1) by simp
  have t: "relay_trace env (sentenceBuffer st) (xs @ ys) (sctx st) (es1 @ es2)"
    using 1(2) 2(2) b1 ids sid by (simp add: relay_trace_def requests_ok_def chunks_sent_append)
  show ?thesis
    unfolding relates_def using a1 a2 b1 b2 c t
    by (intro conjI exI [of _ "es1 @ es2"] exI [of _ cur2]) (simp_all add: buffer_after_append)
qed

lemma chunk_requests_relay:
  "list_all relay_effect (chunk_requests env t c)"
  "concat (map chunk_text (chunk_requests env t c)) = []"
  "\<not> ids_ok c \<Longrightarrow> chunk_requests env t c = []"
  "ids_ok c \<Longrightarrow> \<forall>k. \<not> retried (task_results env k) \<Longrightarrow>
     chunk_requests env t c = [FetchTask (the (sessionId c)) (the (sessionToken c)) t]"
  by (auto simp: chunk_requests_def)

lemma relay_content_relates: "relates env [c] st (relay_content env c st)"
proof (cases "next_chunk (sentenceBuffer st @ c)")
  case None
  have "relay_trace env (sentenceBuffer st) [c] (sctx st) []"
    using None by (simp add: relay_trace_def requests_ok_def)
  then show ?thesis
    unfolding relates_def using None
    by (intro conjI exI [of _ "[]"] exI [of _ "accumulatedResponse st @ c"])
       (simp_all add: relay_content_def Let_def)
next
  case (Some tr)
  obtain t r where tr: "tr = (t, r)" by (cases tr)
  let ?c1 = "(sctx st)\<lparr>currentLLMResponse := accumulatedResponse st @ c\<rparr>"
  let ?es = "SendChunk t # chunk_requests env t ?c1 @ [Sleep CHUNK_DELAY_MS]"
  have ids: "ids_ok ?c1 = ids_ok (sctx st)" by (simp add: ids_ok_def)
  have rt: "relay_trace env (sentenceBuffer st) [c] (sctx st) ?es"
    using Some tr ids chunk_requests_relay [where env = env and t = t and c = ?c1]
    by (auto simp: relay_trace_def requests_ok_def)
  have "sctx (relay_content env c st) =
          (sctx st)\<lparr>trace := trace (sctx st) @ ?es,
                     currentLLMResponse := accumulatedResponse st @ c\<rparr>"
    using Some tr
    by (simp add: relay_content_def Let_def sendChunkToAvatar_effects emit_def)
  with rt show ?thesis
    unfolding relates_def using Some tr
    by (intro conjI exI [of _ ?es] exI [of _ "accumulatedResponse st @ c"])
       (simp_all add: relay_content_def Let_def)
qed

lemma process_lines_relates: "relates env (line_contents ls) st (process_lines env ls st)"
proof (induction env ls st rule: process_lines.induct)
  case (1 env st)
  then show ?case by (simp add: relates_refl)
next
  case (2 env ls st)
  then show ?case by simp
next
  case (3 env data_error data_content data_done ls st)
  show ?case
  proof (cases "truthy data_error")
    case True
    with 3(1) show ?thesis by simp
  next
    case False
    define st' where "st' = (if truthy data_content then relay_content env (the data_content) st else st)"
    define cs where "cs = (if truthy data_content then [the data_content] else [])"
    have first: "relates env cs st st'"
      unfolding cs_def st'_def by (simp add: relay_content_relates relates_refl)
    have pl: "process_lines env (Data data_error data_content data_done # ls) st =
                (if data_done then st' else process_lines env ls st')"
      using False unfolding st'_def by (simp add: Let_def)
    have lc: "line_contents (Data data_error data_content data_done # ls) =
                cs @ (if data_done then [] else line_contents ls)"
      using False unfolding cs_def by simp
    show ?thesis
    proof (cases data_done)
      case True
      with first show ?thesis unfolding pl lc by simp
    next
      case dn: False
      have "relates env (line_contents ls) st' (process_lines env ls st')"
        unfolding st'_def using 3(2) [OF False refl dn] .
      from relates_trans [OF first this] dn show ?thesis unfolding pl lc by simp
    qed
  qed
qed

lemma read_loop_relates: "relates env (consumed_contents reads) st (read_loop env reads st)"
proof (induction reads arbitrary: st)
  case Nil
  then show ?case by (simp add: consumed_contents_def relates_refl)
next
  case (Cons ls reads)
  have 1: "relates env (line_contents ls) st (process_lines env ls st)"
    by (rule process_lines_relates)
  have 2: "relates env (consumed_contents reads) (process_lines env ls st)
             (read_loop env reads (process_lines env ls st))"
    by (rule Cons.IH)
  have "consumed_contents (ls # reads) = line_contents ls @ consumed_contents reads"
    by (simp add: consumed_contents_def)
  with relates_trans [OF 1 2] show ?case by simp
qed

lemma line_contents_nonempty: "c \<in> set (line_contents ls) \<Longrightarrow> c \<noteq> []"
proof (induction ls rule: line_contents.induct)
  case 1
  then show ?case by simp
next
  case (2 ls)
  then show ?case by simp
next
  case (3 data_error data_content data_done ls)
  show ?case
  proof (cases "truthy data_error")
    case True
    with "3.prems" "3.IH"(1) show ?thesis by simp
  next
    case False
    with "3.prems" consider
        (here) "truthy data_content" "c = the data_content"
      | (later) "\<not> data_done" "c \<in> set (line_contents ls)"
      by (auto split: if_splits)
    then show ?thesis
    proof cases
      case here
      then show ?thesis by (cases data_content) (simp_all add: truthy_def)
    next
      case later
      with False "3.IH"(2) show ?thesis by blast
    qed
  qed
qed

lemma consumed_contents_nonempty: "\<forall>c \<in> set (consumed_contents reads). c \<noteq> []"
  unfolding consumed_contents_def using line_contents_nonempty by fastforce

subsection \<open>One attempt\<close>

lemma final_batch_effects:
  "\<exists>es. sctx (final_batch env st) = (sctx st)\<lparr>trace := trace (sctx st) @ es\<rparr>
        \<and> list_all relay_effect es
        \<and> concat (map chunk_text es) = final_chunk (sentenceBuffer st)
        \<and> requests_ok env (sctx st) es (final_chunk (sentenceBuffer st))"
proof (cases "length (trim (sentenceBuffer st)) > 0")
  case True
  let ?t = "trim (sentenceBuffer st)"
  let ?es = "SendChunk ?t # chunk_requests env ?t (sctx st)"
  have "sctx (final_batch env st) = (sctx st)\<lparr>trace := trace (sctx st) @ ?es\<rparr>"
    using True by (simp add: final_batch_def sendChunkToAvatar_effects)
  moreover have "list_all relay_effect ?es" "concat (map chunk_text ?es) = final_chunk (sentenceBuffer st)"
    "requests_ok env (sctx st) ?es (final_chunk (sentenceBuffer st))"
    using True chunk_requests_relay [where env = env and t = ?t and c = "sctx st"]
    by (auto simp: final_chunk_def requests_ok_def)
  ultimately show ?thesis by blast
next
  case False
  then have "sctx (final_batch env st) = (sctx st)\<lparr>trace := trace (sctx st) @ []\<rparr>"
    by (simp add: final_batch_def)
  moreover have "concat (map chunk_text []) = final_chunk (sentenceBuffer st)"
    using False by (simp add: final_chunk_def)
  ultimately show ?thesis by (intro exI [of _ "[]"]) (simp add: requests_ok_def)
qed

lemma final_batch_accumulated: "accumulatedResponse (final_batch env st) = accumulatedResponse st"
  by (simp add: final_batch_def)

text \<open>The stream of an attempt, read to its end.\<close>

lemma stream_read:
  fixes c0 :: "context"
  defines "st0 \<equiv> \<lparr>accumulatedResponse = [], sentenceBuffer = [], sctx = c0\<rparr>"
  shows "\<exists>es cur.
           sctx (final_batch env (read_loop env reads st0)) =
             c0\<lparr>trace := trace c0 @ es, currentLLMResponse := cur\<rparr>
           \<and> accumulatedResponse (final_batch env (read_loop env reads st0)) =
               concat (consumed_contents reads)
           \<and> list_all relay_effect es
           \<and> concat (map chunk_text es) = chunks_from [] (consumed_contents reads)
           \<and> requests_ok env c0 es (chunks_from [] (consumed_contents reads))"
proof -
  let ?st = "read_loop env reads st0"
  let ?cs = "consumed_contents reads"
  have "relates env ?cs st0 ?st" by (rule read_loop_relates)
  then obtain es1 cur where
    1: "sctx ?st = c0\<lparr>trace := trace c0 @ es1, currentLLMResponse := cur\<rparr>"
    and rt: "relay_trace env [] ?cs c0 es1"
    and acc: "accumulatedResponse ?st = concat ?cs"
    and buf: "sentenceBuffer ?st = buffer_after [] ?cs"
    unfolding relates_def st0_def by auto
  from final_batch_effects [of env ?st] obtain es2 where
    2: "sctx (final_batch env ?st) = (sctx ?st)\<lparr>trace := trace (sctx ?st) @ es2\<rparr>"
    and r2: "list_all relay_effect es2"
    and t2: "concat (map chunk_text es2) = final_chunk (sentenceBuffer ?st)"
    and i2: "requests_ok env (sctx ?st) es2 (final_chunk (sentenceBuffer ?st))"
    by blast
  have ids: "ids_ok (sctx ?st) = ids_ok c0" using 1 by (simp add: ids_ok_def)
  have sid: "sessionId (sctx ?st) = sessionId c0" "sessionToken (sctx ?st) = sessionToken c0"
    using 1 by simp_all
  have c: "sctx (final_batch env ?st) =
             c0\<lparr>trace := trace c0 @ (es1 @ es2), currentLLMResponse := cur\<rparr>"
    using 1 2 by simp
  have "list_all relay_effect (es1 @ es2)"
    using rt r2 by (simp add: relay_trace_def)
  moreover have "concat (map chunk_text (es1 @ es2)) = chunks_from [] ?cs"
    using rt t2 buf by (simp add: relay_trace_def chunks_from_def)
  moreover have "requests_ok env c0 (es1 @ es2) (chunks_from [] ?cs)"
    using rt i2 ids sid buf by (simp add: relay_trace_def requests_ok_def chunks_from_def)
  moreover have "accumulatedResponse (final_batch env ?st) = concat ?cs"
    using acc by (simp add: final_batch_accumulated)
  ultimately show ?thesis using c by blast
qed

lemma llm_attempt_success:
  assumes "chat_results env k = ChatResponse status statusText (Some (reads, StreamEnds))"
    and "response_ok status"
    and "trim (concat (consumed_contents reads)) \<noteq> []"
  shows "\<exists>es cur.
           llm_attempt env userMessage k c =
             (Inr (concat (consumed_contents reads)),
              c\<lparr>trace := trace c @ FetchChat userMessage # es,
                currentLLMResponse := cur,
                history := addTextMessage AVATAR (concat (consumed_contents reads))
                             (t_avatar env) (history c)\<rparr>)
           \<and> list_all relay_effect es
           \<and> concat (map chunk_text es) = chunks_from [] (consumed_contents reads)
           \<and> requests_ok env c es (chunks_from [] (consumed_contents reads))"
proof -
  let ?c0 = "emit (FetchChat userMessage) c"
  let ?st = "final_batch env (read_loop env reads
               \<lparr>accumulatedResponse = [], sentenceBuffer = [], sctx = ?c0\<rparr>)"
  from stream_read [of env reads ?c0] obtain es cur where
    s: "sctx ?st = ?c0\<lparr>trace := trace ?c0 @ es, currentLLMResponse := cur\<rparr>"
    and acc: "accumulatedResponse ?st = concat (consumed_contents reads)"
    and r: "list_all relay_effect es"
    and t: "concat (map chunk_text es) = chunks_from [] (consumed_contents reads)"
    and i0: "requests_ok env ?c0 es (chunks_from [] (consumed_contents reads))"
    by blast
  have i: "requests_ok env c es (chunks_from [] (consumed_contents reads))"
    using i0 by (simp add: requests_ok_def ids_ok_def emit_def)
  have "llm_attempt env userMessage k c =
          (Inr (concat (consumed_contents reads)),
           (sctx ?st)\<lparr>history := addTextMessage AVATAR (concat (consumed_contents reads))
                             (t_avatar env) (history (sctx ?st))\<rparr>)"
    using assms acc by (simp add: llm_attempt_def Let_def)
  also have "(sctx ?st)\<lparr>history := addTextMessage AVATAR (concat (consumed_contents reads))
                             (t_avatar env) (history (sctx ?st))\<rparr> =
             c\<lparr>trace := trace c @ FetchChat userMessage # es,
               currentLLMResponse := cur,
               history := addTextMessage AVATAR (concat (consumed_contents reads))
                            (t_avatar env) (history c)\<rparr>"
    unfolding s by (simp add: emit_def)
  finally show ?thesis using r t i by blast
qed

subsection \<open>The retry loop and the whole turn\<close>

lemma llm_attempts_first:
  assumes "llm_attempt env userMessage (Suc 0) c = (Inr r, c')"
  shows "llm_attempts env userMessage 0 lastError c = (Inr r, c')"
  using assms by (simp add: llm_attempts.simps [of _ _ 0] MAX_RETRY_ATTEMPTS_def)

lemma sendToLLM_success:
  assumes "llm_attempt env userMessage (Suc 0)
             (if skip then ctx\<lparr>isLLMProcessing := True, currentLLMResponse := [],
                                llmError := None, suppressAvatarEvents := True\<rparr>
              else ctx\<lparr>isLLMProcessing := True, currentLLMResponse := [],
                       llmError := None, suppressAvatarEvents := True,
                       history := addTextMessage CLIENT userMessage (t_user env) (history ctx)\<rparr>)
           = (Inr r, c')"
  shows "sendToLLM env userMessage skip ctx =
           (Success r, c'\<lparr>isLLMProcessing := False, suppressAvatarEvents := False\<rparr>)"
proof (cases skip)
  case True
  with assms have "llm_attempts env userMessage 0 None
      (ctx\<lparr>isLLMProcessing := True, currentLLMResponse := [],
            llmError := None, suppressAvatarEvents := True\<rparr>) = (Inr r, c')"
    by (intro llm_attempts_first) simp
  with True show ?thesis by (simp add: sendToLLM_def Let_def)
next
  case False
  with assms have "llm_attempts env userMessage 0 None
      (ctx\<lparr>isLLMProcessing := True, currentLLMResponse := [],
            llmError := None, suppressAvatarEvents := True,
            history := addTextMessage CLIENT userMessage (t_user env) (history ctx)\<rparr>) = (Inr r, c')"
    by (intro llm_attempts_first) simp
  with False show ?thesis by (simp add: sendToLLM_def Let_def)
qed

lemma dispatched_append:
  "dispatched (c\<lparr>trace := trace c @ es\<rparr>) = dispatched c @ concat (map chunk_text es)"
  by (simp add: dispatched_def)

text \<open>A turn whose first attempt reads a stream to its end.\<close>

lemma turn_first_attempt:
  assumes "chat_results env 1 = ChatResponse status statusText (Some (reads, StreamEnds))"
    and "response_ok status"
    and "trim (concat (consumed_contents reads)) \<noteq> []"
  shows "\<exists>es cur.
     sendToLLM env userMessage skip ctx =
       (Success (concat (consumed_contents reads)),
        ctx\<lparr>trace := trace ctx @ FetchChat userMessage # es,
            currentLLMResponse := cur,
            llmError := None,
            isLLMProcessing := False,
            suppressAvatarEvents := False,
            history := addTextMessage AVATAR (concat (consumed_contents reads)) (t_avatar env)
                         (if skip then history ctx
                          else addTextMessage CLIENT userMessage (t_user env) (history ctx))\<rparr>)
     \<and> list_all relay_effect es
     \<and> concat (map chunk_text es) = chunks_from [] (consumed_contents reads)
     \<and> requests_ok env ctx es (chunks_from [] (consumed_contents reads))"
proof -
  define c2 where "c2 =
     (if skip then ctx\<lparr>isLLMProcessing := True, currentLLMResponse := [],
                        llmError := None, suppressAvatarEvents := True\<rparr>
      else ctx\<lparr>isLLMProcessing := True, currentLLMResponse := [],
               llmError := None, suppressAvatarEvents := True,
               history := addTextMessage CLIENT userMessage (t_user env) (history ctx)\<rparr>)"
  have k: "chat_results env (Suc 0) = ChatResponse status statusText (Some (reads, StreamEnds))"
    using assms(1) by simp
  from llm_attempt_success [OF k assms(2,3), of userMessage c2] obtain es cur where
    a: "llm_attempt env userMessage (Suc 0) c2 =
          (Inr (concat (consumed_contents reads)),
           c2\<lparr>trace := trace c2 @ FetchChat userMessage # es,
              currentLLMResponse := cur,
              history := addTextMessage AVATAR (concat (consumed_contents reads))
                           (t_avatar env) (history c2)\<rparr>)"
    and r: "list_all relay_effect es"
    and t: "concat (map chunk_text es) = chunks_from [] (consumed_contents reads)"
    and i2: "requests_ok env c2 es (chunks_from [] (consumed_contents reads))"
    by blast
  have i: "requests_ok env ctx es (chunks_from [] (consumed_contents reads))"
    using i2 by (cases skip) (simp_all add: requests_ok_def ids_ok_def c2_def)
  from a have "sendToLLM env userMessage skip ctx =
      (Success (concat (consumed_contents reads)),
       (c2\<lparr>trace := trace c2 @ FetchChat userMessage # es,
              currentLLMResponse := cur,
              history := addTextMessage AVATAR (concat (consumed_contents reads))
                           (t_avatar env) (history c2)\<rparr>)
         \<lparr>isLLMProcessing := False, suppressAvatarEvents := False\<rparr>)"
    unfolding c2_def by (rule sendToLLM_success)
  also have "(c2\<lparr>trace := trace c2 @ FetchChat userMessage # es,
              currentLLMResponse := cur,
              history := addTextMessage AVATAR (concat (consumed_contents reads))
                           (t_avatar env) (history c2)\<rparr>)
         \<lparr>isLLMProcessing := False, suppressAvatarEvents := False\<rparr> =
        ctx\<lparr>trace := trace ctx @ FetchChat userMessage # es,
            currentLLMResponse := cur,
            llmError := None,
            isLLMProcessing := False,
            suppressAvatarEvents := False,
            history := addTextMessage AVATAR (concat (consumed_contents reads)) (t_avatar env)
                         (if skip then history ctx
                          else addTextMessage CLIENT userMessage (t_user env) (history ctx))\<rparr>"
    by (simp add: c2_def)
  finally show ?thesis using r t i by blast
qed

text \<open>
  Claim C2. When the first attempt of a turn reads a stream to its end and the content the
  relay consumed, in whatever fragments it arrived, concatenates to
  \<^verbatim>\<open>"Hello world. How are you? "\<close>, the turn succeeds and \<^verbatim>\<open>sendChunkToAvatar\<close> is called
  exactly twice: with \<^verbatim>\<open>"Hello world."\<close> and then with \<^verbatim>\<open>"How are you?"\<close>. The buffer
  never holds more than the 26 characters of the text, so the flush at 500 characters is
  not involved. With a session identifier and a session token, and a speech-task endpoint
  none of whose answers leads to a retry, the turn sends exactly two requests to the
  endpoint, carrying these two texts in this order.
\<close>

theorem hello_world_two_chunks:
  assumes "chat_results env 1 = ChatResponse status statusText (Some (reads, StreamEnds))"
    and "response_ok status"
    and "concat (consumed_contents reads) = ''Hello world. How are you? ''"
  shows "fst (sendToLLM env userMessage skip ctx) = Success ''Hello world. How are you? '' \<and>
         dispatched (snd (sendToLLM env userMessage skip ctx)) =
           dispatched ctx @ [''Hello world.'', ''How are you?''] \<and>
         (ids_ok ctx \<and> (\<forall>k. \<not> retried (task_results env k)) \<longrightarrow>
            filter is_task (trace (snd (sendToLLM env userMessage skip ctx))) =
              filter is_task (trace ctx) @
                [FetchTask (the (sessionId ctx)) (the (sessionToken ctx)) ''Hello world.'',
                 FetchTask (the (sessionId ctx)) (the (sessionToken ctx)) ''How are you?''])"
proof -
  have ne: "trim (concat (consumed_contents reads)) \<noteq> []"
    unfolding assms(3) by (simp add: trim_def is_space_def)
  from turn_first_attempt [OF assms(1,2) ne, of userMessage skip ctx] obtain es cur where
    s: "sendToLLM env userMessage skip ctx =
       (Success (concat (consumed_contents reads)),
        ctx\<lparr>trace := trace ctx @ FetchChat userMessage # es,
            currentLLMResponse := cur,
            llmError := None,
            isLLMProcessing := False,
            suppressAvatarEvents := False,
            history := addTextMessage AVATAR (concat (consumed_contents reads)) (t_avatar env)
                         (if skip then history ctx
                          else addTextMessage CLIENT userMessage (t_user env) (history ctx))\<rparr>)"
    and t: "concat (map chunk_text es) = chunks_from [] (consumed_contents reads)"
    and i: "requests_ok env ctx es (chunks_from [] (consumed_contents reads))"
    by blast
  have ch: "chunks_from [] (consumed_contents reads) = [''Hello world.'', ''How are you?'']"
    using consumed_contents_nonempty assms(3) by (rule hello_world_chunks)
  have "fst (sendToLLM env userMessage skip ctx) = Success ''Hello world. How are you? ''"
    using s assms(3) by simp
  moreover have "dispatched (snd (sendToLLM env userMessage skip ctx)) =
      dispatched ctx @ [''Hello world.'', ''How are you?'']"
    using s t ch by (simp add: dispatched_def)
  moreover have "ids_ok ctx \<and> (\<forall>k. \<not> retried (task_results env k)) \<longrightarrow>
      filter is_task (trace (snd (sendToLLM env userMessage skip ctx))) =
        filter is_task (trace ctx) @
          [FetchTask (the (sessionId ctx)) (the (sessionToken ctx)) ''Hello world.'',
           FetchTask (the (sessionId ctx)) (the (sessionToken ctx)) ''How are you?'']"
    using s i ch by (simp add: requests_ok_def)
  ultimately show ?thesis by blast
qed

theorem hello_world_two_chunks_witness:
  "response_ok 200 \<and>
   concat (consumed_contents
     [[Data None (Some ''Hello world. How'') False],
      [Unparsable, Data None (Some '' are you? '') False, Data None None True]]) =
     ''Hello world. How are you? '' \<and>
   dispatched (snd (sendToLLM
     \<lparr>chat_results = (\<lambda>k. ChatResponse 200 ''OK''
         (Some ([[Data None (Some ''Hello world. How'') False],
                 [Unparsable, Data None (Some '' are you? '') False, Data None None True]],
                StreamEnds))),
      task_results = (\<lambda>k. TaskResponse 200 True), t_user = 1, t_avatar = 2\<rparr>
     ''Say hello'' True
     (initial_context\<lparr>sessionId := Some ''sid'', sessionToken := Some ''tok''\<rparr>))) =
     [''Hello world.'', ''How are you?''] \<and>
   filter is_task (trace (snd (sendToLLM
     \<lparr>chat_results = (\<lambda>k. ChatResponse 200 ''OK''
         (Some ([[Data None (Some ''Hello world. How'') False],
                 [Unparsable, Data None (Some '' are you? '') False, Data None None True]],
                StreamEnds))),
      task_results = (\<lambda>k. TaskResponse 200 True), t_user = 1, t_avatar = 2\<rparr>
     ''Say hello'' True
     (initial_context\<lparr>sessionId := Some ''sid'', sessionToken := Some ''tok''\<rparr>)))) =
     [FetchTask ''sid'' ''tok'' ''Hello world.'', FetchTask ''sid'' ''tok'' ''How are you?'']"
  using hello_world_two_chunks
    [of "\<lparr>chat_results = (\<lambda>k. ChatResponse 200 ''OK''
         (Some ([[Data None (Some ''Hello world. How'') False],
                 [Unparsable, Data None (Some '' are you? '') False, Data None None True]],
                StreamEnds))),
      task_results = (\<lambda>k. TaskResponse 200 True), t_user = 1, t_avatar = 2\<rparr>"
      200 "''OK''"
      "[[Data None (Some ''Hello world. How'') False],
        [Unparsable, Data None (Some '' are you? '') False, Data None None True]]"
      "''Say hello''" True
      "(initial_context\<lparr>sessionId := Some ''sid'', sessionToken := Some ''tok''\<rparr>)"]
  by (simp add: response_ok_def consumed_contents_def truthy_def dispatched_def
        initial_context_def ids_ok_def)

subsection \<open>Retry of a chunk\<close>

text \<open>
  Claim C3, as amended. A dispatch makes the requests of \<open>chunk_requests\<close> and nothing else:
  at most two requests, the second one 500 milliseconds after the first and only when the
  first threw, or its body could not be decoded, or its status was exactly 500. After any
  other response that is not ok, and after the second request, the chunk is given up. The
  dispatch function has no error result. Whatever the outcomes of the requests, the read
  loop of the attempt goes on and dispatches every chunk of the stream.
\<close>

theorem chunk_dispatch_retry:
  "sendChunkToAvatar env txt ctx =
     ctx\<lparr>trace := trace ctx @ SendChunk txt # chunk_requests env txt ctx\<rparr> \<and>
   length (filter is_task (chunk_requests env txt ctx)) \<le> MAX_CHUNK_RETRIES \<and>
   dispatched (sctx (final_batch env (read_loop env reads
      \<lparr>accumulatedResponse = [], sentenceBuffer = [], sctx = ctx\<rparr>))) =
     dispatched ctx @ chunks_from [] (consumed_contents reads)"
proof -
  from stream_read [of env reads ctx] obtain es cur where
    "sctx (final_batch env (read_loop env reads
        \<lparr>accumulatedResponse = [], sentenceBuffer = [], sctx = ctx\<rparr>)) =
       ctx\<lparr>trace := trace ctx @ es, currentLLMResponse := cur\<rparr>"
    "concat (map chunk_text es) = chunks_from [] (consumed_contents reads)"
    by blast
  then have "dispatched (sctx (final_batch env (read_loop env reads
      \<lparr>accumulatedResponse = [], sentenceBuffer = [], sctx = ctx\<rparr>))) =
     dispatched ctx @ chunks_from [] (consumed_contents reads)"
    by (simp add: dispatched_def)
  moreover have "length (filter is_task (chunk_requests env txt ctx)) \<le> MAX_CHUNK_RETRIES"
    by (simp add: chunk_requests_def MAX_CHUNK_RETRIES_def)
  ultimately show ?thesis using sendChunkToAvatar_effects by blast
qed

theorem chunk_dispatch_retry_witness:
  "trace (sendChunkToAvatar
      \<lparr>chat_results = (\<lambda>k. ChatThrew (JsError [] [])),
       task_results = (\<lambda>k. if k = 0 then TaskResponse 500 True else TaskResponse 200 True),
       t_user = 0, t_avatar = 0\<rparr>
      ''Hi.'' (initial_context\<lparr>sessionId := Some ''sid'', sessionToken := Some ''tok''\<rparr>)) =
     [SendChunk ''Hi.'', FetchTask ''sid'' ''tok'' ''Hi.'', Sleep 500,
      FetchTask ''sid'' ''tok'' ''Hi.'']"
  using chunk_dispatch_retry
    [of "\<lparr>chat_results = (\<lambda>k. ChatThrew (JsError [] [])),
       task_results = (\<lambda>k. if k = 0 then TaskResponse 500 True else TaskResponse 200 True),
       t_user = 0, t_avatar = 0\<rparr>"
      "''Hi.''" "initial_context\<lparr>sessionId := Some ''sid'', sessionToken := Some ''tok''\<rparr>"]
  by (simp add: chunk_requests_def ids_ok_def truthy_def task_calls_def initial_context_def
        CHUNK_RETRY_DELAY_def)

text \<open>
  The claim as written fails for a status of the range 500 to 599 other than 500: after a
  503 the chunk is given up with one request.
\<close>

theorem chunk_not_retried_on_503_counterexample:
  "trace (sendChunkToAvatar
      \<lparr>chat_results = (\<lambda>k. ChatThrew (JsError [] [])),
       task_results = (\<lambda>k. TaskResponse 503 True), t_user = 0, t_avatar = 0\<rparr>
      ''Hi.'' (initial_context\<lparr>sessionId := Some ''sid'', sessionToken := Some ''tok''\<rparr>)) =
     [SendChunk ''Hi.'', FetchTask ''sid'' ''tok'' ''Hi.'']"
  by code_simp

subsection \<open>A chunk without session identifiers\<close>

lemma toString_1: "toString 1 = ''1''"
  by code_simp

lemma toString_2: "toString 2 = ''2''"
  by code_simp

text \<open>
  Claim C10. When the session identifier or the session token is null (or empty) at the
  dispatch of a chunk, \<^verbatim>\<open>sendChunkToAvatar\<close> returns at once: it makes no request and has no
  error result. A turn whose first attempt reads a non-blank stream to its end still
  succeeds: every chunk of the stream goes through the dispatch function, no speech-task
  request is made, and the full response is added to the history as a message of the
  avatar: the history ends with the user message, unless the caller has added it already,
  and after it one complete message of the avatar with the whole response as its content.
\<close>

theorem chunk_dropped_without_session:
  assumes "\<not> truthy (sessionId ctx) \<or> \<not> truthy (sessionToken ctx)"
    and "chat_results env 1 = ChatResponse status statusText (Some (reads, StreamEnds))"
    and "response_ok status"
    and "trim (concat (consumed_contents reads)) \<noteq> []"
  shows "sendChunkToAvatar env txt ctx = emit (SendChunk txt) ctx \<and>
         fst (sendToLLM env userMessage skip ctx) = Success (concat (consumed_contents reads)) \<and>
         filter is_task (trace (snd (sendToLLM env userMessage skip ctx))) =
           filter is_task (trace ctx) \<and>
         dispatched (snd (sendToLLM env userMessage skip ctx)) =
           dispatched ctx @ chunks_from [] (consumed_contents reads) \<and>
         messages (history (snd (sendToLLM env userMessage skip ctx))) =
           messages (history ctx) @
           (if skip then []
            else [\<lparr>msg_id = toString (t_user env), sender = CLIENT, content = userMessage,
                   isComplete = True\<rparr>]) @
           [\<lparr>msg_id = toString (t_avatar env), sender = AVATAR,
             content = concat (consumed_contents reads), isComplete = True\<rparr>] \<and>
         currentSenderRef (history (snd (sendToLLM env userMessage skip ctx))) =
           currentSenderRef (history ctx)"
proof -
  from assms(1) have no: "\<not> ids_ok ctx" by (auto simp: ids_ok_def)
  then have one: "sendChunkToAvatar env txt ctx = emit (SendChunk txt) ctx"
    by (simp add: sendChunkToAvatar_effects chunk_requests_def emit_def)
  from turn_first_attempt [OF assms(2,3,4), of userMessage skip ctx] obtain es cur where
    s: "sendToLLM env userMessage skip ctx =
       (Success (concat (consumed_contents reads)),
        ctx\<lparr>trace := trace ctx @ FetchChat userMessage # es,
            currentLLMResponse := cur,
            llmError := None,
            isLLMProcessing := False,
            suppressAvatarEvents := False,
            history := addTextMessage AVATAR (concat (consumed_contents reads)) (t_avatar env)
                         (if skip then history ctx
                          else addTextMessage CLIENT userMessage (t_user env) (history ctx))\<rparr>)"
    and t: "concat (map chunk_text es) = chunks_from [] (consumed_contents reads)"
    and i: "requests_ok env ctx es (chunks_from [] (consumed_contents reads))"
    by blast
  from i no have "filter is_task es = []" by (simp add: requests_ok_def)
  with s t one show ?thesis by (simp add: dispatched_def addTextMessage_def)
qed

theorem chunk_dropped_without_session_witness:
  "\<not> truthy (sessionId initial_context) \<and>
   response_ok 200 \<and>
   sendChunkToAvatar
     \<lparr>chat_results = (\<lambda>k. ChatResponse 200 ''OK''
         (Some ([[Data None (Some ''Hi. '') False, Data None (Some ''Bye'') True]], StreamEnds))),
      task_results = (\<lambda>k. TaskResponse 200 True), t_user = 1, t_avatar = 2\<rparr>
     ''Hi.'' initial_context = emit (SendChunk ''Hi.'') initial_context \<and>
   fst (sendToLLM
     \<lparr>chat_results = (\<lambda>k. ChatResponse 200 ''OK''
         (Some ([[Data None (Some ''Hi. '') False, Data None (Some ''Bye'') True]], StreamEnds))),
      task_results = (\<lambda>k. TaskResponse 200 True), t_user = 1, t_avatar = 2\<rparr>
     ''q'' True initial_context) = Success ''Hi. Bye'' \<and>
   filter is_task (trace (snd (sendToLLM
     \<lparr>chat_results = (\<lambda>k. ChatResponse 200 ''OK''
         (Some ([[Data None (Some ''Hi. '') False, Data None (Some ''Bye'') True]], StreamEnds))),
      task_results = (\<lambda>k. TaskResponse 200 True), t_user = 1, t_avatar = 2\<rparr>
     ''q'' True initial_context))) = [] \<and>
   messages (history (snd (sendToLLM
     \<lparr>chat_results = (\<lambda>k. ChatResponse 200 ''OK''
         (Some ([[Data None (Some ''Hi. '') False, Data None (Some ''Bye'') True]], StreamEnds))),
      task_results = (\<lambda>k. TaskResponse 200 True), t_user = 1, t_avatar = 2\<rparr>
     ''q'' False initial_context))) =
     [\<lparr>msg_id = ''1'', sender = CLIENT, content = ''q'', isComplete = True\<rparr>,
      \<lparr>msg_id = ''2'', sender = AVATAR, content = ''Hi. Bye'', isComplete = True\<rparr>]"
  using chunk_dropped_without_session
    [of initial_context
      "\<lparr>chat_results = (\<lambda>k. ChatResponse 200 ''OK''
         (Some ([[Data None (Some ''Hi. '') False, Data None (Some ''Bye'') True]], StreamEnds))),
      task_results = (\<lambda>k. TaskResponse 200 True), t_user = 1, t_avatar = 2\<rparr>"
      200 "''OK''" "[[Data None (Some ''Hi. '') False, Data None (Some ''Bye'') True]]"
      "''Hi.''" "''q''" True]
    chunk_dropped_without_session
    [of initial_context
      "\<lparr>chat_results = (\<lambda>k. ChatResponse 200 ''OK''
         (Some ([[Data None (Some ''Hi. '') False, Data None (Some ''Bye'') True]], StreamEnds))),
      task_results = (\<lambda>k. TaskResponse 200 True), t_user = 1, t_avatar = 2\<rparr>"
      200 "''OK''" "[[Data None (Some ''Hi. '') False, Data None (Some ''Bye'') True]]"
      "''Hi.''" "''q''" False]
    toString_1 toString_2
  by (simp add: response_ok_def consumed_contents_def truthy_def initial_context_def
        initial_messages_def trim_def is_space_def)

subsection \<open>Retry of the chat request\<close>















subsection \<open>Client errors\<close>







text \<open>
  The status texts of the client errors, as the registry of HTTP status codes names them,
  with the older names of five of them: none contains \<^verbatim>\<open>network\<close> or
  \<^verbatim>\<open>Failed to fetch\<close>. Neither does the empty status text of HTTP/2.
\<close>

lemma reason_phrases_not_retryable:
  "list_all (\<lambda>s. \<not> str_includes s ''network'' \<and> \<not> str_includes s ''Failed to fetch'')
     ([] # client_error_reason_phrases)"
  by code_simp

text \<open>
  Where the assumption on the status text is needed: a response with status 404 whose
  status text contains \<^verbatim>\<open>network\<close> would be classified as retryable, because the test for
  \<^verbatim>\<open>network\<close> reads the whole message, and the message ends with the status text. No
  status text of a client error is of this kind, and the chat route sets none.
\<close>

lemma status_text_network_is_retried:
  "isRetryableError (JsError ''Error'' (''LLM API request failed: '' @ toString 404 @ '' '' @ ''network unreachable'')) \<and>
   fst (sendToLLM
     \<lparr>chat_results = (\<lambda>k. if k = 1 then ChatResponse 404 ''network unreachable'' None
                           else ChatResponse 200 ''OK''
                                  (Some ([[Data None (Some ''Hi.'') True]], StreamEnds))),
      task_results = (\<lambda>k. TaskThrew), t_user = 0, t_avatar = 0\<rparr>
     ''q'' True initial_context) = Success ''Hi.'' \<and>
   trace (snd (sendToLLM
     \<lparr>chat_results = (\<lambda>k. if k = 1 then ChatResponse 404 ''network unreachable'' None
                           else ChatResponse 200 ''OK''
                                  (Some ([[Data None (Some ''Hi.'') True]], StreamEnds))),
      task_results = (\<lambda>k. TaskThrew), t_user = 0, t_avatar = 0\<rparr>
     ''q'' True initial_context)) =
     [FetchChat ''q'', Sleep 1000, FetchChat ''q'', SendChunk ''Hi.'', Sleep 800]"
  by code_simp



end
